theory Spec2Isabelle
  imports Main
begin

section \<open>The finite state machine engine of \<^verbatim>\<open>fsm.c\<close>\<close>

text \<open>
  The engine is two C functions: \<^verbatim>\<open>run_transition\<close>, which tries one row of a
  transition table at the input cursor, and \<^verbatim>\<open>run_fsm\<close>, the driver loop that walks
  the table. They call each other: a row of match type \<^verbatim>\<open>FSM\<close> runs a whole
  sub-machine through \<^verbatim>\<open>run_fsm\<close>.

  Conventions of the embedding.
  \<^item> C \<^verbatim>\<open>int\<close> is \<open>int\<close>. The only arithmetic is
    \<^verbatim>\<open>nbytes_processed += nbytes_used_transing\<close> on non-negative lengths; a run that
    consumes 2^31 bytes or more overflows a signed \<^verbatim>\<open>int\<close>, which C leaves
    undefined, and is outside the model, as is a pattern whose \<^verbatim>\<open>strlen\<close> does not
    fit an \<^verbatim>\<open>int\<close>.
  \<^item> The input is a C string. \<open>buf\<close> is its bytes, the terminating NUL not included,
    and the cursor \<^verbatim>\<open>*data\<close> is an index into it. A read at or beyond
    \<open>length buf\<close> yields NUL (\<open>byte_at\<close>); in C only the terminator itself may be
    read, anything beyond it is out of bounds. The engine never writes to the input.
  \<^item> \<^verbatim>\<open>void *context\<close> points to host state that callbacks mutate. The model
    threads a value of type \<open>'c\<close> through every call: a callback takes the context
    and returns the new one.
  \<^item> A callback receives \<^verbatim>\<open>char **data\<close>, a pointer to a cursor, and may move
    that cursor: it takes the cursor and returns the new one.
  \<^item> \<^verbatim>\<open>transition *transition_table\<close> of a row is a pointer: \<open>None\<close> is
    \<^verbatim>\<open>NULL\<close>, \<open>Some a\<close> is the address of a table, looked up in
    \<open>tabs :: nat \<Rightarrow> table\<close>. Tables can refer to each other and to themselves, as
    pointers can.
  \<^item> A table is the list of its rows in order. The scan stops at the first row whose
    \<open>current_state\<close> is \<open>-1\<close>, the sentinel; rows behind it are never read. A list
    that ends before any sentinel is read as if the sentinel followed its last row
    (the C code would read past the array there).
\<close>

subsection \<open>Data model\<close>

text \<open>
  Modelled from the spec: the header \<^verbatim>\<open>fsm.h\<close>, which declares the enumerations and
  the \<^verbatim>\<open>transition\<close> struct, is not among the sources. The constants are the ones
  \<^verbatim>\<open>fsm.c\<close> switches on and compares with; \<open>INVALID_MATCH\<close> stands for every value
  of \<^verbatim>\<open>match_type\<close> that reaches the \<^verbatim>\<open>default:\<close> branch. The fields are the ones
  \<^verbatim>\<open>fsm.c\<close> reads, under their names there (\<open>state_type\<close> is the field
  \<^verbatim>\<open>type\<close>).
\<close>

datatype match_kind = EXACT_STR | SINGLE_CHR | FSM | FUNC | INVALID_MATCH

datatype state_kind = NORMAL | ACCEPT | REJECT

type_synonym ('c, 'l) action_fn = "string \<Rightarrow> nat \<Rightarrow> 'c \<Rightarrow> 'l \<Rightarrow> int \<times> nat \<times> 'c"

type_synonym ('c, 'l) trans_fn = "string \<Rightarrow> nat \<Rightarrow> 'c \<Rightarrow> 'l \<Rightarrow> nat \<times> 'c"

record ('c, 'l) transition =
  current_state :: int
  match_type :: match_kind
  str :: "string option"
  transition_table :: "nat option"
  action :: "('c, 'l) action_fn option"
  local_context :: 'l
  state_pass :: int
  state_fail :: int
  state_type :: state_kind
  transfn :: "('c, 'l) trans_fn option"
  transition_name :: "string option"

type_synonym ('c, 'l) table = "('c, 'l) transition list"

text \<open>
  The local variables of \<^verbatim>\<open>run_fsm\<close>, with the caller's cursor \<^verbatim>\<open>*data\<close> and the
  context. \<open>cur_state\<close> is the local \<^verbatim>\<open>current_state\<close> (the row field has that
  name), \<open>ctx\<close> is \<^verbatim>\<open>context\<close>.
\<close>

record 'c fsm_vars =
  cur_state :: int
  nbytes_processed :: int
  in_accept :: int
  data :: nat
  ctx :: 'c

text \<open>
  How one pass of the \<^verbatim>\<open>for\<close> loop over the table ends: at the sentinel with
  \<^verbatim>\<open>successful_trans == 0\<close>, by \<^verbatim>\<open>break\<close> with \<^verbatim>\<open>successful_trans = 1\<close>, or by
  the \<^verbatim>\<open>return -1\<close> of a matched \<^verbatim>\<open>REJECT\<close> row.
\<close>

datatype 'c scan = Scan_end "'c fsm_vars" | Scan_break "'c fsm_vars" | Scan_return "'c fsm_vars"

subsection \<open>C strings\<close>

definition NUL :: char where
  "NUL = CHR 0x00"

definition strlen :: "string \<Rightarrow> nat" where
  "strlen s = length (takeWhile (\<lambda>c. c \<noteq> NUL) s)"

definition byte_at :: "string \<Rightarrow> nat \<Rightarrow> char" where
  "byte_at buf i = (if i < length buf then buf ! i else NUL)"

text \<open>\<^verbatim>\<open>memcmp(*data, s, n) == 0\<close>, for \<open>n \<le> strlen s\<close>.\<close>

definition memcmp_eq :: "string \<Rightarrow> nat \<Rightarrow> string \<Rightarrow> nat \<Rightarrow> bool" where
  "memcmp_eq buf d s n = list_all (\<lambda>i. byte_at buf (d + i) = s ! i) [0..<n]"

text \<open>The loop \<^verbatim>\<open>for(i = 0; i < strlen(s); i++) if(*data[0] == s[i]) return 1;\<close>\<close>

definition chr_match :: "string \<Rightarrow> nat \<Rightarrow> string \<Rightarrow> bool" where
  "chr_match buf d s = list_ex (\<lambda>i. byte_at buf d = s ! i) [0..<strlen s]"

subsection \<open>The matcher and the driver\<close>

text \<open>
  The driver's \<^verbatim>\<open>while\<close> loop need not end, and sub-machines can nest without
  bound, so the functions take fuel: \<open>while_loop\<close> spends one unit on each pass over
  the table and hands the rest to the pass, hence to the sub-machines started in it.
  \<open>None\<close> means that the fuel ran out; \<open>Some\<close> is the C function's return.

  \<open>run_transition\<close> returns the C return value, the cursor it was given (a sub-machine
  or a predicate may have moved it) and the context. The guard
  \<^verbatim>\<open>trans == NULL || data == NULL\<close> at its head never fires for the driver, which
  passes a row of the table and the address of a local.
\<close>

definition init_vars :: "nat \<Rightarrow> 'c \<Rightarrow> 'c fsm_vars" where
  "init_vars d c = \<lparr>cur_state = 0, nbytes_processed = 0, in_accept = 0, data = d, ctx = c\<rparr>"

text \<open>The final \<^verbatim>\<open>return (in_accept == 1) ? nbytes_processed : -1;\<close>\<close>

definition fsm_return :: "'c fsm_vars \<Rightarrow> int" where
  "fsm_return v = (if in_accept v = 1 then nbytes_processed v else - 1)"

text \<open>
  \<^verbatim>\<open>if(current_trans->transfn != NULL) current_trans->transfn(data, context,
  current_trans->local_context);\<close> with the cursor \<open>d\<close> and the context \<open>c\<close>: what
  the call leaves of both.
\<close>

definition call_transfn :: "('c, 'l) transition \<Rightarrow> string \<Rightarrow> nat \<Rightarrow> 'c \<Rightarrow> nat \<times> 'c" where
  "call_transfn t buf d c =
     (case transfn t of None \<Rightarrow> (d, c) | Some f \<Rightarrow> f buf d c (local_context t))"

text \<open>
  The branch of a successful transition (\<open>n \<ge> 0\<close> is what \<open>run_transition\<close> returned,
  \<open>c\<close> the context it left): the callback is called on the caller's cursor; then the
  byte count and the cursor advance, the state changes, and the row's type decides
  between \<^verbatim>\<open>in_accept = 1\<close>, \<^verbatim>\<open>return -1\<close> and nothing; the first and the last leave
  the scan by \<^verbatim>\<open>break\<close>.
\<close>

definition success :: "('c, 'l) transition \<Rightarrow> string \<Rightarrow> 'c fsm_vars \<Rightarrow> int \<Rightarrow> 'c \<Rightarrow> 'c scan" where
  "success t buf v n c =
     (let (d, c') = call_transfn t buf (data v) c;
          v' = \<lparr>cur_state = state_pass t,
                nbytes_processed = nbytes_processed v + n,
                in_accept = 0,
                data = d + nat n,
                ctx = c'\<rparr>
      in if state_type t = ACCEPT then Scan_break (v'\<lparr>in_accept := 1\<rparr>)
         else if state_type t = REJECT then Scan_return v'
         else Scan_break v')"

text \<open>
  The branch of a failed transition: \<^verbatim>\<open>if(current_trans->state_fail >= 0)
  current_state = current_trans->state_fail;\<close>. \<open>c\<close> is the context the failed attempt
  left.
\<close>

definition failure :: "('c, 'l) transition \<Rightarrow> 'c fsm_vars \<Rightarrow> 'c \<Rightarrow> 'c fsm_vars" where
  "failure t v c =
     (if state_fail t \<ge> 0 then v\<lparr>cur_state := state_fail t, ctx := c\<rparr> else v\<lparr>ctx := c\<rparr>)"

function (sequential)
      run_fsm :: "nat \<Rightarrow> (nat \<Rightarrow> ('c, 'l) table) \<Rightarrow> ('c, 'l) table \<Rightarrow> string \<Rightarrow> nat \<Rightarrow> 'c
      \<Rightarrow> (int \<times> nat \<times> 'c) option"
  and while_loop :: "nat \<Rightarrow> (nat \<Rightarrow> ('c, 'l) table) \<Rightarrow> ('c, 'l) table \<Rightarrow> string \<Rightarrow> 'c fsm_vars
      \<Rightarrow> (int \<times> 'c fsm_vars) option"
  and for_loop :: "nat \<Rightarrow> (nat \<Rightarrow> ('c, 'l) table) \<Rightarrow> ('c, 'l) table \<Rightarrow> string \<Rightarrow> 'c fsm_vars
      \<Rightarrow> 'c scan option"
  and run_transition :: "nat \<Rightarrow> (nat \<Rightarrow> ('c, 'l) table) \<Rightarrow> ('c, 'l) transition \<Rightarrow> string \<Rightarrow> nat \<Rightarrow> 'c
      \<Rightarrow> (int \<times> nat \<times> 'c) option"
where
  "run_fsm k tabs action_table buf d c =
     (case while_loop k tabs action_table buf (init_vars d c) of
        None \<Rightarrow> None
      | Some (r, v) \<Rightarrow> Some (r, data v, ctx v))"
| "while_loop 0 tabs action_table buf v =
     (if cur_state v \<ge> 0 then None else Some (fsm_return v, v))"
| "while_loop (Suc k) tabs action_table buf v =
     (if cur_state v \<ge> 0 then
        (case for_loop k tabs action_table buf v of
           None \<Rightarrow> None
         | Some (Scan_return v') \<Rightarrow> Some (- 1, v')
         | Some (Scan_break v') \<Rightarrow> while_loop k tabs action_table buf v'
         | Some (Scan_end v') \<Rightarrow> while_loop k tabs action_table buf (v'\<lparr>cur_state := - 1\<rparr>))
      else Some (fsm_return v, v))"
| "for_loop k tabs [] buf v = Some (Scan_end v)"
| "for_loop k tabs (t # ts) buf v =
     (if current_state t = - 1 then Some (Scan_end v)
      else if cur_state v = current_state t then
        (case run_transition k tabs t buf (data v) (ctx v) of
           None \<Rightarrow> None
         | Some (n, data_copy, c) \<Rightarrow>
             if n \<ge> 0 then Some (success t buf v n c)
             else for_loop k tabs ts buf (failure t v c))
      else for_loop k tabs ts buf v)"
| "run_transition k tabs t buf d c =
     (case match_type t of
        EXACT_STR \<Rightarrow>
          (case str t of
             None \<Rightarrow> Some (- 1, d, c)
           | Some s \<Rightarrow>
               if memcmp_eq buf d s (strlen s) then Some (int (strlen s), d, c)
               else Some (- 1, d, c))
      | SINGLE_CHR \<Rightarrow>
          (case str t of
             None \<Rightarrow> Some (- 1, d, c)
           | Some s \<Rightarrow> if chr_match buf d s then Some (1, d, c) else Some (- 1, d, c))
      | FSM \<Rightarrow>
          (case transition_table t of
             None \<Rightarrow> Some (- 1, d, c)
           | Some a \<Rightarrow> run_fsm k tabs (tabs a) buf d c)
      | FUNC \<Rightarrow>
          (case action t of
             None \<Rightarrow> Some (- 1, d, c)
           | Some f \<Rightarrow> Some (f buf d c (local_context t)))
      | INVALID_MATCH \<Rightarrow> Some (- 1, d, c))"
  by pat_completeness auto

termination
  by (relation
       "(\<lambda>x. case x of Inl (Inl a) \<Rightarrow> fst a | Inl (Inr a) \<Rightarrow> fst a
                         | Inr (Inl a) \<Rightarrow> fst a | Inr (Inr a) \<Rightarrow> fst a) <*mlex*>
        (\<lambda>x. case x of Inl (Inl a) \<Rightarrow> 1 | Inl (Inr a) \<Rightarrow> 0
                         | Inr (Inl a) \<Rightarrow> 3 | Inr (Inr a) \<Rightarrow> (2::nat)) <*mlex*>
        (\<lambda>x. case x of Inr (Inl a) \<Rightarrow> length (fst (snd (snd a))) | _ \<Rightarrow> 0) <*mlex*> {}")
     (auto simp: wf_mlex mlex_less mlex_leq)


declare run_transition.simps [simp del] run_fsm.simps [simp del]

subsection \<open>Notions used in the statements\<close>

text \<open>The variables a pass over the table ends with, however it ends.\<close>

fun scan_vars :: "'c scan \<Rightarrow> 'c fsm_vars" where
  "scan_vars (Scan_end v) = v"
| "scan_vars (Scan_break v) = v"
| "scan_vars (Scan_return v) = v"

text \<open>Rows in front of the sentinel: the scan reads every one of them.\<close>

definition no_sentinel :: "('c, 'l) table \<Rightarrow> bool" where
  "no_sentinel ts = list_all (\<lambda>t. current_state t \<noteq> - 1) ts"

text \<open>
  A row whose callback, if it has one, leaves the cursor where it found it: the
  behaviour of a callback that only observes the input and accumulates into the context.
\<close>

definition keeps_cursor :: "('c, 'l) transition \<Rightarrow> bool" where
  "keeps_cursor t =
     (case transfn t of None \<Rightarrow> True | Some f \<Rightarrow> \<forall>buf d c. fst (f buf d c (local_context t)) = d)"

text \<open>
  A row that makes progress on the input \<open>buf\<close>: with fuel \<open>k\<close> every attempt to match
  it returns, a match consumes at least one byte and ends inside the input, and its
  callback leaves the cursor alone.
\<close>

definition advancing :: "nat \<Rightarrow> (nat \<Rightarrow> ('c, 'l) table) \<Rightarrow> string \<Rightarrow> ('c, 'l) transition \<Rightarrow> bool" where
  "advancing k tabs buf t =
     (keeps_cursor t \<and>
      (\<forall>d c. \<exists>n d' c'. run_transition k tabs t buf d c = Some (n, d', c') \<and>
         (0 \<le> n \<longrightarrow> 0 < n \<and> d + nat n \<le> length buf)))"

text \<open>
  A row from which the driver cannot loop without consuming input, given by \<open>sub\<close>
  the addresses of the sub-tables that are known to be of that kind: its callback
  leaves the cursor alone; an exact string is not empty; a predicate that matches
  consumes at least one byte and ends inside the input \<open>buf\<close>; a sub-machine row
  refers to a table admitted by \<open>sub\<close>. A row that cannot match at all (a missing
  pattern, sub-table or predicate, an invalid match type) is of this kind too.
\<close>

definition progress_row :: "(nat \<Rightarrow> bool) \<Rightarrow> string \<Rightarrow> ('c, 'l) transition \<Rightarrow> bool" where
  "progress_row sub buf t =
     (keeps_cursor t \<and>
      (case match_type t of
         EXACT_STR \<Rightarrow> (case str t of None \<Rightarrow> True | Some s \<Rightarrow> 0 < strlen s)
       | SINGLE_CHR \<Rightarrow> True
       | FSM \<Rightarrow> (case transition_table t of None \<Rightarrow> True | Some a \<Rightarrow> sub a)
       | FUNC \<Rightarrow>
           (case action t of
              None \<Rightarrow> True
            | Some f \<Rightarrow>
                \<forall>d c. fst (f buf d c (local_context t)) < 0 \<or>
                  (0 < fst (f buf d c (local_context t)) \<and>
                   d + nat (fst (f buf d c (local_context t))) \<le> length buf))
       | INVALID_MATCH \<Rightarrow> True))"

text \<open>
  A table of such rows whose sub-machine rows nest at most \<open>h\<close> deep: the tables they
  refer to are of the same kind with depth \<open>h - 1\<close>, and at depth 0 there is no
  sub-machine row with a sub-table.
\<close>

primrec progress_table :: "nat \<Rightarrow> (nat \<Rightarrow> ('c, 'l) table) \<Rightarrow> string \<Rightarrow> ('c, 'l) table \<Rightarrow> bool" where
  "progress_table 0 tabs buf tbl = list_all (progress_row (\<lambda>a. False) buf) tbl"
| "progress_table (Suc h) tabs buf tbl =
     list_all (progress_row (\<lambda>a. progress_table h tabs buf (tabs a)) buf) tbl"

text \<open>
  The matched length of the transition that a pass commits, as a list: the value
  \<open>run_transition\<close> returns for the first row that the scan of \<open>for_loop\<close> finds
  eligible and matching, \<open>[]\<close> if the scan reaches the sentinel first. The scan is
  the one of \<open>for_loop\<close>, with the state redirected by the rows that fail.
\<close>

fun pass_lengths :: "nat \<Rightarrow> (nat \<Rightarrow> ('c, 'l) table) \<Rightarrow> ('c, 'l) table \<Rightarrow> string \<Rightarrow> 'c fsm_vars
    \<Rightarrow> int list option" where
  "pass_lengths k tabs [] buf v = Some []"
| "pass_lengths k tabs (t # ts) buf v =
     (if current_state t = - 1 then Some []
      else if cur_state v = current_state t then
        (case run_transition k tabs t buf (data v) (ctx v) of
           None \<Rightarrow> None
         | Some (n, data_copy, c) \<Rightarrow>
             if n \<ge> 0 then Some [n] else pass_lengths k tabs ts buf (failure t v c))
      else pass_lengths k tabs ts buf v)"

text \<open>
  The matched lengths of the transitions that the loop commits from the variables
  \<open>v\<close> on, in order, the one of a rejecting row included: the length of each pass,
  with the variables that \<open>for_loop\<close> hands to the next pass.
\<close>

fun committed_lengths :: "nat \<Rightarrow> (nat \<Rightarrow> ('c, 'l) table) \<Rightarrow> ('c, 'l) table \<Rightarrow> string \<Rightarrow> 'c fsm_vars
    \<Rightarrow> int list option" where
  "committed_lengths 0 tabs tbl buf v = (if cur_state v \<ge> 0 then None else Some [])"
| "committed_lengths (Suc k) tabs tbl buf v =
     (if cur_state v \<ge> 0 then
        (case for_loop k tabs tbl buf v of
           None \<Rightarrow> None
         | Some (Scan_return v') \<Rightarrow> pass_lengths k tabs tbl buf v
         | Some (Scan_break v') \<Rightarrow>
             (case pass_lengths k tabs tbl buf v of
                None \<Rightarrow> None
              | Some ns \<Rightarrow>
                  (case committed_lengths k tabs tbl buf v' of
                     None \<Rightarrow> None
                   | Some ms \<Rightarrow> Some (ns @ ms)))
         | Some (Scan_end v') \<Rightarrow> Some [])
      else Some [])"

subsection \<open>Tables for the examples\<close>

text \<open>
  The examples run on a context that is a counter and on rows without local data.
  \<open>ex_row\<close> is a row with a pattern and neither sub-table nor callbacks.
\<close>

definition ex_row :: "int \<Rightarrow> match_kind \<Rightarrow> string option \<Rightarrow> int \<Rightarrow> int \<Rightarrow> state_kind
    \<Rightarrow> (nat, unit) transition" where
  "ex_row s m p sp sf ty =
     \<lparr>current_state = s, match_type = m, str = p, transition_table = None, action = None,
      local_context = (), state_pass = sp, state_fail = sf, state_type = ty,
      transfn = None, transition_name = None\<rparr>"

definition ex_sentinel :: "(nat, unit) transition" where
  "ex_sentinel = ex_row (- 1) INVALID_MATCH None (- 1) (- 1) NORMAL"

text \<open>A callback that counts its calls in the context and leaves the cursor alone.\<close>

definition ex_count :: "(nat, unit) trans_fn" where
  "ex_count buf d c l = (d, Suc c)"

text \<open>A callback that records in the context the cursor it was called with.\<close>

definition ex_record :: "(nat, unit) trans_fn" where
  "ex_record buf d c l = (d, d)"

text \<open>A callback that moves the cursor it is handed one byte forward.\<close>

definition ex_skip :: "(nat, unit) trans_fn" where
  "ex_skip buf d c l = (Suc d, c)"

text \<open>A predicate that matches everywhere and consumes nothing.\<close>

definition ex_always :: "(nat, unit) action_fn" where
  "ex_always buf d c l = (0, d, c)"

text \<open>A predicate that counts its calls in the context and never matches.\<close>

definition ex_never :: "(nat, unit) action_fn" where
  "ex_never buf d c l = (- 1, d, Suc c)"

definition ex_no_tabs :: "nat \<Rightarrow> (nat, unit) table" where
  "ex_no_tabs a = []"

text \<open>A table whose only row is a predicate that matches without consuming, back to state 0.\<close>

definition ex_loop_table :: "(nat, unit) table" where
  "ex_loop_table = [(ex_row 0 FUNC None 0 (- 1) NORMAL)\<lparr>action := Some ex_always\<rparr>, ex_sentinel]"

text \<open>
  A sub-machine for \<open>''abz''\<close> that counts its first transition in the context, stored at
  address 1, and a row that runs it.
\<close>

definition ex_sub_table :: "(nat, unit) table" where
  "ex_sub_table =
     [(ex_row 0 EXACT_STR (Some ''a'') 1 (- 1) NORMAL)\<lparr>transfn := Some ex_count\<rparr>,
      ex_row 1 EXACT_STR (Some ''b'') 2 (- 1) NORMAL,
      ex_row 2 EXACT_STR (Some ''z'') 3 (- 1) ACCEPT,
      ex_sentinel]"

text \<open>A table whose only row runs, as a sub-machine, the table itself, stored at address 2.\<close>

definition ex_self_table :: "(nat, unit) table" where
  "ex_self_table = [(ex_row 0 FSM None 1 (- 1) ACCEPT)\<lparr>transition_table := Some 2\<rparr>, ex_sentinel]"

definition ex_tabs :: "nat \<Rightarrow> (nat, unit) table" where
  "ex_tabs a = (if a = 1 then ex_sub_table else if a = 2 then ex_self_table else [])"

definition ex_fsm_row :: "(nat, unit) transition" where
  "ex_fsm_row = (ex_row 0 FSM None 1 (- 1) ACCEPT)\<lparr>transition_table := Some 1\<rparr>"

text \<open>A table that runs that sub-machine again and again, until it fails.\<close>

definition ex_repeat_table :: "(nat, unit) table" where
  "ex_repeat_table =
     [(ex_row 0 FSM None 0 (- 1) ACCEPT)\<lparr>transition_table := Some 1\<rparr>, ex_sentinel]"

text \<open>A table for \<open>''aab''\<close> whose last row rejects.\<close>

definition ex_reject_table :: "(nat, unit) table" where
  "ex_reject_table =
     [ex_row 0 EXACT_STR (Some ''a'') 1 (- 1) NORMAL,
      ex_row 1 EXACT_STR (Some ''a'') 2 (- 1) NORMAL,
      ex_row 2 EXACT_STR (Some ''b'') 3 (- 1) REJECT,
      ex_sentinel]"

text \<open>A table for \<open>''ab''\<close> and then \<open>''cd''\<close>, accepting after the second.\<close>

definition ex_two_table :: "(nat, unit) table" where
  "ex_two_table =
     [ex_row 0 EXACT_STR (Some ''ab'') 1 (- 1) NORMAL,
      ex_row 1 EXACT_STR (Some ''cd'') 2 (- 1) ACCEPT,
      ex_sentinel]"


section \<open>Properties\<close>

lemmas ex_defs = ex_row_def ex_sentinel_def ex_no_tabs_def ex_count_def ex_record_def
  ex_always_def ex_never_def ex_loop_table_def ex_sub_table_def ex_tabs_def
  ex_fsm_row_def init_vars_def fsm_return_def call_transfn_def success_def failure_def
  memcmp_eq_def chr_match_def strlen_def byte_at_def NUL_def no_sentinel_def
  keeps_cursor_def progress_row_def run_transition.simps run_fsm.simps
  ex_skip_def ex_self_table_def ex_repeat_table_def ex_reject_table_def ex_two_table_def

subsection \<open>One pass over the table\<close>

lemma success_not_end: "success t buf v n c \<noteq> Scan_end v'"
  by (simp add: success_def Let_def split: prod.split)

text \<open>The variables after a successful transition, whichever way it leaves the pass.\<close>

lemma success_vars:
  "scan_vars (success t buf v n c) =
     \<lparr>cur_state = state_pass t, nbytes_processed = nbytes_processed v + n,
      in_accept = (if state_type t = ACCEPT then 1 else 0),
      data = fst (call_transfn t buf (data v) c) + nat n,
      ctx = snd (call_transfn t buf (data v) c)\<rparr>"
  by (cases "call_transfn t buf (data v) c") (simp add: success_def Let_def)

lemma success_break:
  "state_type t \<noteq> REJECT \<Longrightarrow> success t buf v n c = Scan_break (scan_vars (success t buf v n c))"
  by (cases "call_transfn t buf (data v) c") (simp add: success_def Let_def)

lemma success_return:
  "state_type t = REJECT \<Longrightarrow> success t buf v n c = Scan_return (scan_vars (success t buf v n c))"
  by (cases "call_transfn t buf (data v) c") (simp add: success_def Let_def)

text \<open>
  A pass over \<open>pre @ rest\<close>, where \<open>pre\<close> holds no sentinel, is the pass over \<open>pre\<close>
  and, when that found no transition, the pass over \<open>rest\<close> with the variables it left.
\<close>

lemma for_loop_append:
  assumes "no_sentinel pre"
  shows "for_loop k tabs (pre @ rest) buf v =
     (case for_loop k tabs pre buf v of
        Some (Scan_end v') \<Rightarrow> for_loop k tabs rest buf v'
      | r \<Rightarrow> r)"
  using assms
proof (induction pre arbitrary: v)
  case Nil
  then show ?case by simp
next
  case (Cons t pre)
  then have ns: "current_state t \<noteq> - 1" and rest: "no_sentinel pre"
    by (simp_all add: no_sentinel_def)
  show ?case
  proof (cases "cur_state v = current_state t")
    case False
    with ns Cons.IH [OF rest] show ?thesis by simp
  next
    case True
    show ?thesis
    proof (cases "run_transition k tabs t buf (data v) (ctx v)")
      case None
      with ns True show ?thesis by simp
    next
      case (Some r)
      obtain n d' c' where r: "r = (n, d', c')" by (cases r)
      show ?thesis
      proof (cases "0 \<le> n")
        case True
        with ns \<open>cur_state v = current_state t\<close> Some r show ?thesis
          by (cases "success t buf v n c'") (simp_all add: success_not_end)
      next
        case False
        with ns \<open>cur_state v = current_state t\<close> Some r Cons.IH [OF rest] show ?thesis
          by simp
      qed
    qed
  qed
qed

lemma for_loop_after:
  assumes "no_sentinel pre" and "for_loop k tabs pre buf v0 = Some (Scan_end v)"
  shows "for_loop k tabs (pre @ rest) buf v0 = for_loop k tabs rest buf v"
  using assms by (simp add: for_loop_append)

lemma failure_frame:
  "data (failure t v c) = data v" "nbytes_processed (failure t v c) = nbytes_processed v"
  "in_accept (failure t v c) = in_accept v" "ctx (failure t v c) = c"
  by (simp_all add: failure_def)

text \<open>A pass that finds no transition moves neither the cursor nor the counters.\<close>

lemma for_loop_end_frame:
  "for_loop k tabs ts buf v = Some (Scan_end v') \<Longrightarrow>
     data v' = data v \<and> nbytes_processed v' = nbytes_processed v \<and> in_accept v' = in_accept v"
proof (induction ts arbitrary: v)
  case Nil
  then show ?case by simp
next
  case (Cons t ts)
  then show ?case
    by (auto simp: success_not_end failure_frame split: if_splits option.splits)
qed

subsection \<open>Fuel decides whether a result comes, not which\<close>

lemma run_fsm_mono_step:
  assumes W: "\<forall>tbl v r. while_loop k tabs tbl buf v = Some r \<longrightarrow> while_loop k' tabs tbl buf v = Some r"
    and "run_fsm k tabs tbl buf d c = Some r"
  shows "run_fsm k' tabs tbl buf d c = Some r"
  using assms by (auto simp: run_fsm.simps split: option.splits)

lemma run_transition_mono_step:
  assumes W: "\<forall>tbl v r. while_loop k tabs tbl buf v = Some r \<longrightarrow> while_loop k' tabs tbl buf v = Some r"
    and "run_transition k tabs t buf d c = Some r"
  shows "run_transition k' tabs t buf d c = Some r"
  using assms(2) run_fsm_mono_step [of k tabs buf k', OF W]
  by (auto simp: run_transition.simps split: match_kind.splits option.splits if_splits)

lemma for_loop_mono_step:
  assumes W: "\<forall>tbl v r. while_loop k tabs tbl buf v = Some r \<longrightarrow> while_loop k' tabs tbl buf v = Some r"
    and "for_loop k tabs ts buf v = Some s"
  shows "for_loop k' tabs ts buf v = Some s"
  using assms(2)
proof (induction ts arbitrary: v)
  case Nil
  then show ?case by simp
next
  case (Cons t ts)
  note T = run_transition_mono_step [of k tabs buf k', OF W]
  show ?case
  proof (cases "current_state t \<noteq> - 1 \<and> cur_state v = current_state t")
    case False
    with Cons show ?thesis by (auto split: if_splits)
  next
    case True
    with Cons.prems obtain n d' c' where
      r: "run_transition k tabs t buf (data v) (ctx v) = Some (n, d', c')"
      by (auto split: option.splits)
    from T [OF r] have r': "run_transition k' tabs t buf (data v) (ctx v) = Some (n, d', c')" .
    from True r r' Cons.prems Cons.IH show ?thesis
      by (auto split: if_splits)
  qed
qed

lemma while_loop_mono:
  "while_loop k tabs tbl buf v = Some r \<Longrightarrow> k \<le> k' \<Longrightarrow> while_loop k' tabs tbl buf v = Some r"
proof (induction k arbitrary: k' tbl v r)
  case 0
  then show ?case by (cases k') (auto split: if_splits)
next
  case (Suc k)
  from Suc.prems(2) obtain j where k': "k' = Suc j" and kj: "k \<le> j"
    by (cases k') auto
  have W: "\<forall>tbl v r. while_loop k tabs tbl buf v = Some r \<longrightarrow> while_loop j tabs tbl buf v = Some r"
    using Suc.IH kj by blast
  note F = for_loop_mono_step [of k tabs buf j, OF W]
  show ?case
  proof (cases "0 \<le> cur_state v")
    case False
    with Suc.prems k' show ?thesis by simp
  next
    case True
    with Suc.prems obtain s where s: "for_loop k tabs tbl buf v = Some s"
      by (auto split: option.splits)
    from F [OF s] have s': "for_loop j tabs tbl buf v = Some s" .
    from True s s' Suc.prems(1) k' Suc.IH [OF _ kj] show ?thesis
      by (cases s) auto
  qed
qed

lemma run_fsm_mono:
  "run_fsm k tabs tbl buf d c = Some r \<Longrightarrow> k \<le> k' \<Longrightarrow> run_fsm k' tabs tbl buf d c = Some r"
  using run_fsm_mono_step [of k tabs buf k'] while_loop_mono [of k tabs _ buf _ _ k'] by blast

subsection \<open>Routing on a failed match\<close>

text \<open>
  C1. Let the pass have come through the rows \<open>pre\<close> without a transition, leaving the
  variables \<open>v\<close>, and let the next row \<open>t\<close> be eligible in the state of \<open>v\<close>, fail to
  match, and carry an on-failure state that is not negative. Then the pass goes on with
  the rows behind \<open>t\<close>, and only those, in the on-failure state: it is neither
  restarted at the first row nor ended, and the rows behind \<open>t\<close> are tested for
  eligibility against the new state.
\<close>

theorem fail_redirect_continues_pass:
  assumes "no_sentinel pre" and "for_loop k tabs pre buf v0 = Some (Scan_end v)"
    and "current_state t \<noteq> - 1" and "cur_state v = current_state t"
    and "run_transition k tabs t buf (data v) (ctx v) = Some (n, d', c')" and "n < 0"
    and "0 \<le> state_fail t"
  shows "for_loop k tabs (pre @ t # ts) buf v0 =
           for_loop k tabs ts buf (v\<lparr>cur_state := state_fail t, ctx := c'\<rparr>)"
proof -
  have "for_loop k tabs (pre @ t # ts) buf v0 = for_loop k tabs (t # ts) buf v"
    using assms(1,2) by (rule for_loop_after)
  also have "\<dots> = for_loop k tabs ts buf (failure t v c')"
    using assms(3-6) by simp
  also have "failure t v c' = v\<lparr>cur_state := state_fail t, ctx := c'\<rparr>"
    using assms(7) by (simp add: failure_def)
  finally show ?thesis .
qed

text \<open>
  The regression test of the spec: rows for state 5 stand on both sides of a row for
  state 0 that fails with on-failure state 5. The pass takes the one behind it (to
  state 9), not the one in front (to state 7).
\<close>

theorem fail_redirect_continues_pass_witness:
  "for_loop 0 ex_no_tabs
     ([ex_row 5 EXACT_STR (Some ''b'') 7 (- 1) ACCEPT] @
      ex_row 0 EXACT_STR (Some ''x'') 1 5 NORMAL #
      [ex_row 5 EXACT_STR (Some ''b'') 9 (- 1) ACCEPT, ex_sentinel])
     ''b'' (init_vars 0 0)
   = Some (Scan_break \<lparr>cur_state = 9, nbytes_processed = 1, in_accept = 1, data = 1, ctx = 0\<rparr>)"
proof -
  have "for_loop 0 ex_no_tabs
     ([ex_row 5 EXACT_STR (Some ''b'') 7 (- 1) ACCEPT] @
      ex_row 0 EXACT_STR (Some ''x'') 1 5 NORMAL #
      [ex_row 5 EXACT_STR (Some ''b'') 9 (- 1) ACCEPT, ex_sentinel])
     ''b'' (init_vars 0 0)
   = for_loop 0 ex_no_tabs [ex_row 5 EXACT_STR (Some ''b'') 9 (- 1) ACCEPT, ex_sentinel] ''b''
       ((init_vars 0 0)\<lparr>cur_state := state_fail (ex_row 0 EXACT_STR (Some ''x'') 1 5 NORMAL),
          ctx := 0\<rparr>)"
    by (rule fail_redirect_continues_pass [where n = "- 1" and d' = 0])
       (simp_all add: ex_defs)
  also have "\<dots> = Some (Scan_break
      \<lparr>cur_state = 9, nbytes_processed = 1, in_accept = 1, data = 1, ctx = 0\<rparr>)"
    by (simp add: ex_defs)
  finally show ?thesis .
qed

text \<open>
  C10. A failed match of an eligible row (reached by the pass as above) redirects exactly
  when the row's on-failure state is not negative. Every negative value, not \<open>-1\<close>
  alone, leaves the current state as it is.
\<close>

theorem fail_redirect_iff_nonnegative:
  assumes "no_sentinel pre" and "for_loop k tabs pre buf v0 = Some (Scan_end v)"
    and "current_state t \<noteq> - 1" and "cur_state v = current_state t"
    and "run_transition k tabs t buf (data v) (ctx v) = Some (n, d', c')" and "n < 0"
  shows "for_loop k tabs (pre @ t # ts) buf v0 =
           for_loop k tabs ts buf
             (v\<lparr>cur_state := (if 0 \<le> state_fail t then state_fail t else cur_state v),
                ctx := c'\<rparr>)"
proof -
  have "for_loop k tabs (pre @ t # ts) buf v0 = for_loop k tabs (t # ts) buf v"
    using assms(1,2) by (rule for_loop_after)
  also have "\<dots> = for_loop k tabs ts buf (failure t v c')"
    using assms(3-6) by simp
  also have "failure t v c' =
      v\<lparr>cur_state := (if 0 \<le> state_fail t then state_fail t else cur_state v), ctx := c'\<rparr>"
    by (simp add: failure_def)
  finally show ?thesis .
qed

text \<open>
  With on-failure state \<open>-7\<close> the state stays 0, and the next row for state 0 is tried.
\<close>

theorem fail_redirect_iff_nonnegative_witness:
  "for_loop 0 ex_no_tabs
     ([ex_row 3 EXACT_STR (Some ''b'') 4 (- 1) ACCEPT] @
      ex_row 0 EXACT_STR (Some ''x'') 1 (- 7) NORMAL #
      [ex_row 0 EXACT_STR (Some ''b'') 9 (- 1) ACCEPT, ex_sentinel])
     ''b'' (init_vars 0 0)
   = Some (Scan_break \<lparr>cur_state = 9, nbytes_processed = 1, in_accept = 1, data = 1, ctx = 0\<rparr>)"
proof -
  let ?pre = "[ex_row 3 EXACT_STR (Some ''b'') 4 (- 1) ACCEPT]"
  let ?t = "ex_row 0 EXACT_STR (Some ''x'') 1 (- 7) NORMAL"
  let ?ts = "[ex_row 0 EXACT_STR (Some ''b'') 9 (- 1) ACCEPT, ex_sentinel]"
  have h1: "no_sentinel ?pre"
    by (simp add: ex_defs)
  have h2: "for_loop 0 ex_no_tabs ?pre ''b'' (init_vars 0 0) = Some (Scan_end (init_vars 0 0))"
    by (simp add: ex_defs)
  have h3: "current_state ?t \<noteq> - 1"
    by (simp add: ex_defs)
  have h4: "cur_state (init_vars 0 (0::nat)) = current_state ?t"
    by (simp add: ex_defs)
  have h5: "run_transition 0 ex_no_tabs ?t ''b'' (data (init_vars 0 (0::nat))) (ctx (init_vars 0 0))
      = Some (- 1, 0, 0)"
    by (simp add: ex_defs)
  have h6: "(- 1::int) < 0"
    by simp
  from fail_redirect_iff_nonnegative [OF h1 h2 h3 h4 h5 h6, of ?ts] show ?thesis
    by (simp add: ex_defs)
qed

subsection \<open>Reject\<close>

text \<open>
  C2. Let the loop stand at variables \<open>v0\<close>, whatever byte count earlier transitions
  have accumulated in them, and let the pass reach a row \<open>t\<close> of type \<^verbatim>\<open>REJECT\<close>
  that is eligible and matches. Then the pass ends in \<^verbatim>\<open>return -1\<close> at that row, and
  so does the run: the rows \<open>ts\<close> behind \<open>t\<close> play no part, there is no further pass,
  and the returned value is \<open>-1\<close>, not the byte count, which by then includes the
  bytes of the rejecting transition.
\<close>

theorem reject_aborts_run:
  assumes "0 \<le> cur_state v0"
    and "no_sentinel pre" and "for_loop k tabs pre buf v0 = Some (Scan_end v)"
    and "current_state t \<noteq> - 1" and "cur_state v = current_state t"
    and "run_transition k tabs t buf (data v) (ctx v) = Some (n, d', c')" and "0 \<le> n"
    and "state_type t = REJECT"
  shows "for_loop k tabs (pre @ t # ts) buf v0 = Some (Scan_return (scan_vars (success t buf v n c')))
       \<and> while_loop (Suc k) tabs (pre @ t # ts) buf v0 = Some (- 1, scan_vars (success t buf v n c'))
       \<and> cur_state (scan_vars (success t buf v n c')) = state_pass t
       \<and> nbytes_processed (scan_vars (success t buf v n c')) = nbytes_processed v0 + n"
proof -
  have "for_loop k tabs (pre @ t # ts) buf v0 = for_loop k tabs (t # ts) buf v"
    using assms(2,3) by (rule for_loop_after)
  also have "\<dots> = Some (success t buf v n c')"
    using assms(4-7) by simp
  finally have pass: "for_loop k tabs (pre @ t # ts) buf v0 = Some (success t buf v n c')" .
  obtain d1 c1 where cb: "call_transfn t buf (data v) c' = (d1, c1)"
    by (cases "call_transfn t buf (data v) c'")
  from cb assms(8) have ret: "success t buf v n c' = Scan_return (scan_vars (success t buf v n c'))"
    by (simp add: success_def)
  from for_loop_end_frame [OF assms(3)] have "nbytes_processed v = nbytes_processed v0"
    by simp
  with cb assms(8) have "nbytes_processed (scan_vars (success t buf v n c')) = nbytes_processed v0 + n"
    and "cur_state (scan_vars (success t buf v n c')) = state_pass t"
    by (simp_all add: success_def)
  moreover from pass ret
  have 1: "for_loop k tabs (pre @ t # ts) buf v0 = Some (Scan_return (scan_vars (success t buf v n c')))"
    by simp
  moreover from 1 assms(1)
  have "while_loop (Suc k) tabs (pre @ t # ts) buf v0 = Some (- 1, scan_vars (success t buf v n c'))"
    by simp
  ultimately show ?thesis by simp
qed

text \<open>
  A run on \<open>''ab''\<close> that commits \<open>''a''\<close> and then matches a rejecting \<open>''b''\<close>:
  the second pass and the whole run return \<open>-1\<close>, with one byte committed before.
\<close>

theorem reject_aborts_run_witness:
  "while_loop (Suc 0) ex_no_tabs
     ([ex_row 0 EXACT_STR (Some ''a'') 1 (- 1) NORMAL] @
      ex_row 1 EXACT_STR (Some ''b'') 2 (- 1) REJECT #
      [ex_row 1 EXACT_STR (Some ''b'') 3 (- 1) ACCEPT, ex_sentinel])
     ''ab'' \<lparr>cur_state = 1, nbytes_processed = 1, in_accept = 0, data = 1, ctx = 0\<rparr>
   = Some (- 1, \<lparr>cur_state = 2, nbytes_processed = 2, in_accept = 0, data = 2, ctx = 0\<rparr>)
   \<and> run_fsm (Suc (Suc 0)) ex_no_tabs
     ([ex_row 0 EXACT_STR (Some ''a'') 1 (- 1) NORMAL] @
      ex_row 1 EXACT_STR (Some ''b'') 2 (- 1) REJECT #
      [ex_row 1 EXACT_STR (Some ''b'') 3 (- 1) ACCEPT, ex_sentinel])
     ''ab'' 0 0 = Some (- 1, 2, 0)"
proof -
  let ?v0 = "\<lparr>cur_state = 1, nbytes_processed = 1, in_accept = 0, data = 1, ctx = 0::nat\<rparr>"
  let ?pre = "[ex_row 0 EXACT_STR (Some ''a'') 1 (- 1) NORMAL]"
  let ?t = "ex_row 1 EXACT_STR (Some ''b'') 2 (- 1) REJECT"
  let ?ts = "[ex_row 1 EXACT_STR (Some ''b'') 3 (- 1) ACCEPT, ex_sentinel]"
  have h1: "0 \<le> cur_state ?v0"
    by simp
  have h2: "no_sentinel ?pre"
    by (simp add: ex_defs)
  have h3: "for_loop 0 ex_no_tabs ?pre ''ab'' ?v0 = Some (Scan_end ?v0)"
    by (simp add: ex_defs)
  have h4: "current_state ?t \<noteq> - 1"
    by (simp add: ex_defs)
  have h5: "cur_state ?v0 = current_state ?t"
    by (simp add: ex_defs)
  have h6: "run_transition 0 ex_no_tabs ?t ''ab'' (data ?v0) (ctx ?v0) = Some (1, 1, 0)"
    by (simp add: ex_defs)
  have h7: "(0::int) \<le> 1"
    by simp
  have h8: "state_type ?t = REJECT"
    by (simp add: ex_defs)
  from reject_aborts_run [OF h1 h2 h3 h4 h5 h6 h7 h8, of ?ts]
  have "while_loop (Suc 0) ex_no_tabs (?pre @ ?t # ?ts) ''ab'' ?v0
      = Some (- 1, \<lparr>cur_state = 2, nbytes_processed = 2, in_accept = 0, data = 2, ctx = 0\<rparr>)"
    by (simp add: ex_defs)
  then show ?thesis
    by (simp add: ex_defs)
qed

subsection \<open>The loop in a negative state\<close>

lemma while_loop_halted:
  "cur_state v < 0 \<Longrightarrow> while_loop k tabs tbl buf v = Some (fsm_return v, v)"
  by (cases k) simp_all

subsection \<open>The cursor and the byte count\<close>

lemma call_transfn_keeps: "keeps_cursor t \<Longrightarrow> fst (call_transfn t buf d c) = d"
  by (simp add: keeps_cursor_def call_transfn_def split: option.splits)

text \<open>
  With callbacks that leave the cursor alone, cursor and byte count move together, and
  the byte count never goes down.
\<close>

lemma for_loop_cursor:
  assumes "\<forall>t\<in>set ts. keeps_cursor t" and "for_loop k tabs ts buf v = Some s"
  shows "int (data (scan_vars s)) - nbytes_processed (scan_vars s)
           = int (data v) - nbytes_processed v
       \<and> nbytes_processed v \<le> nbytes_processed (scan_vars s)"
  using assms
proof (induction ts arbitrary: v)
  case Nil
  then show ?case by auto
next
  case (Cons t ts)
  then have keep: "keeps_cursor t" and rest: "\<forall>t\<in>set ts. keeps_cursor t"
    by simp_all
  show ?case
  proof (cases "current_state t \<noteq> - 1 \<and> cur_state v = current_state t")
    case False
    with Cons.prems(2) Cons.IH [OF rest] show ?thesis
      by (auto split: if_splits)
  next
    case True
    with Cons.prems(2) obtain n d' c' where
      r: "run_transition k tabs t buf (data v) (ctx v) = Some (n, d', c')"
      by (auto split: option.splits)
    show ?thesis
    proof (cases "0 \<le> n")
      case True
      with \<open>current_state t \<noteq> - 1 \<and> cur_state v = current_state t\<close> r Cons.prems(2)
      have "s = success t buf v n c'" by simp
      with True keep show ?thesis
        by (simp add: success_vars call_transfn_keeps)
    next
      case False
      with \<open>current_state t \<noteq> - 1 \<and> cur_state v = current_state t\<close> r Cons.prems(2)
      have "for_loop k tabs ts buf (failure t v c') = Some s" by simp
      from Cons.IH [OF rest this] show ?thesis
        by (simp add: failure_frame)
    qed
  qed
qed

lemma while_loop_cursor:
  assumes "\<forall>t\<in>set tbl. keeps_cursor t" and "while_loop k tabs tbl buf v = Some (r, v')"
  shows "int (data v') - nbytes_processed v' = int (data v) - nbytes_processed v
       \<and> nbytes_processed v \<le> nbytes_processed v'"
  using assms(2)
proof (induction k arbitrary: v)
  case 0
  then show ?case by (auto split: if_splits)
next
  case (Suc k)
  show ?case
  proof (cases "0 \<le> cur_state v")
    case False
    with Suc.prems show ?thesis by simp
  next
    case True
    with Suc.prems obtain s where s: "for_loop k tabs tbl buf v = Some s"
      by (auto split: option.splits)
    note F = for_loop_cursor [OF assms(1) s]
    show ?thesis
    proof (cases s)
      case (Scan_end v1)
      with True s Suc.prems have "while_loop k tabs tbl buf (v1\<lparr>cur_state := - 1\<rparr>) = Some (r, v')"
        by simp
      from Suc.IH [OF this] F Scan_end show ?thesis by simp
    next
      case (Scan_break v1)
      with True s Suc.prems have "while_loop k tabs tbl buf v1 = Some (r, v')"
        by simp
      from Suc.IH [OF this] F Scan_break show ?thesis by simp
    next
      case (Scan_return v1)
      with True s Suc.prems have "v' = v1" by simp
      with F Scan_return show ?thesis by simp
    qed
  qed
qed

subsection \<open>Exact strings\<close>

lemma c_string_nth:
  assumes "i < strlen s"
  shows "s ! i = takeWhile (\<lambda>c. c \<noteq> NUL) s ! i" and "s ! i \<noteq> NUL"
proof -
  from assms show eq: "s ! i = takeWhile (\<lambda>c. c \<noteq> NUL) s ! i"
    by (simp add: strlen_def takeWhile_nth)
  from assms have "takeWhile (\<lambda>c. c \<noteq> NUL) s ! i \<in> set (takeWhile (\<lambda>c. c \<noteq> NUL) s)"
    by (simp add: strlen_def)
  then have "takeWhile (\<lambda>c. c \<noteq> NUL) s ! i \<noteq> NUL"
    by (rule set_takeWhileD [THEN conjunct2])
  with eq show "s ! i \<noteq> NUL" by simp
qed

lemma byte_at_not_NUL: "byte_at buf i \<noteq> NUL \<Longrightarrow> i < length buf"
  by (simp add: byte_at_def split: if_splits)

text \<open>
  \<open>memcmp\<close> over the length of the pattern succeeds exactly when the input holds, from
  the cursor on, the bytes of the pattern in front of its terminator; in particular
  there are that many bytes of input left.
\<close>

lemma memcmp_eq_iff:
  "memcmp_eq buf d s (strlen s) \<longleftrightarrow>
     take (strlen s) (drop d buf) = takeWhile (\<lambda>c. c \<noteq> NUL) s"
proof
  assume m: "memcmp_eq buf d s (strlen s)"
  then have at: "\<And>i. i < strlen s \<Longrightarrow> byte_at buf (d + i) = s ! i"
    by (simp add: memcmp_eq_def list_all_iff)
  have inside: "\<And>i. i < strlen s \<Longrightarrow> d + i < length buf"
    using at c_string_nth(2) byte_at_not_NUL by metis
  have len: "d + strlen s \<le> length buf \<or> strlen s = 0"
  proof (cases "strlen s")
    case 0
    then show ?thesis by simp
  next
    case (Suc j)
    with inside [of j] show ?thesis by simp
  qed
  show "take (strlen s) (drop d buf) = takeWhile (\<lambda>c. c \<noteq> NUL) s"
  proof (rule nth_equalityI)
    from len show "length (take (strlen s) (drop d buf)) = length (takeWhile (\<lambda>c. c \<noteq> NUL) s)"
      by (auto simp: strlen_def)
  next
    fix i assume "i < length (take (strlen s) (drop d buf))"
    then have i: "i < strlen s" by simp
    from inside [OF i] at [OF i] c_string_nth(1) [OF i] i
    show "take (strlen s) (drop d buf) ! i = takeWhile (\<lambda>c. c \<noteq> NUL) s ! i"
      by (simp add: byte_at_def)
  qed
next
  assume e: "take (strlen s) (drop d buf) = takeWhile (\<lambda>c. c \<noteq> NUL) s"
  then have "length (take (strlen s) (drop d buf)) = strlen s"
    by (simp add: strlen_def)
  then have len: "strlen s \<le> length buf - d" by simp
  have "byte_at buf (d + i) = s ! i" if i: "i < strlen s" for i
  proof -
    from i len have "d + i < length buf" by simp
    moreover from i len have "take (strlen s) (drop d buf) ! i = buf ! (d + i)" by simp
    ultimately show ?thesis
      using e c_string_nth(1) [OF i] by (simp add: byte_at_def)
  qed
  then show "memcmp_eq buf d s (strlen s)"
    by (simp add: memcmp_eq_def list_all_iff)
qed

text \<open>
  C5, as stated, fails for the empty pattern: \<open>memcmp\<close> over 0 bytes returns 0, so the
  match succeeds and consumes nothing.
\<close>

theorem exact_str_empty_counterexample:
  "run_transition 0 ex_no_tabs (ex_row 0 EXACT_STR (Some '''') 1 (- 1) NORMAL) ''ab'' 0 0
   = Some (0, 0, 0)"
  by (simp add: ex_defs)

text \<open>
  C5, amended. For a row of match type \<^verbatim>\<open>EXACT_STR\<close>: the match fails if the pattern
  is null; it fails if the pattern's bytes are not the input bytes at the cursor for the
  pattern's full length; otherwise it succeeds and returns the pattern's length. An
  empty pattern therefore matches at every cursor, with length 0. The cursor copy and
  the context come back as they were given.
\<close>

theorem exact_str_transition:
  assumes "match_type t = EXACT_STR"
  shows "(str t = None \<longrightarrow> run_transition k tabs t buf d c = Some (- 1, d, c))
       \<and> (str t = Some s \<and> take (strlen s) (drop d buf) \<noteq> takeWhile (\<lambda>c. c \<noteq> NUL) s \<longrightarrow>
            run_transition k tabs t buf d c = Some (- 1, d, c))
       \<and> (str t = Some s \<and> take (strlen s) (drop d buf) = takeWhile (\<lambda>c. c \<noteq> NUL) s \<longrightarrow>
            run_transition k tabs t buf d c = Some (int (strlen s), d, c))
       \<and> (str t = Some s \<and> strlen s = 0 \<longrightarrow>
            run_transition k tabs t buf d c = Some (0, d, c))"
proof -
  have "memcmp_eq buf d s 0"
    by (simp add: memcmp_eq_def)
  with assms show ?thesis
    by (auto simp: run_transition.simps memcmp_eq_iff)
qed

theorem exact_str_transition_witness:
  "match_type (ex_row 0 EXACT_STR (Some ''ab'') 1 (- 1) ACCEPT) = EXACT_STR
   \<and> run_transition 0 ex_no_tabs (ex_row 0 EXACT_STR None 1 (- 1) ACCEPT) ''abcd'' 0 0
       = Some (- 1, 0, 0)
   \<and> run_transition 0 ex_no_tabs (ex_row 0 EXACT_STR (Some ''ab'') 1 (- 1) ACCEPT) ''abcd'' 0 0
       = Some (2, 0, 0)
   \<and> run_transition 0 ex_no_tabs (ex_row 0 EXACT_STR (Some ''ab'') 1 (- 1) ACCEPT) ''abcd'' 1 0
       = Some (- 1, 1, 0)
   \<and> run_transition 0 ex_no_tabs (ex_row 0 EXACT_STR (Some ''ab'') 1 (- 1) ACCEPT) ''xa'' 1 0
       = Some (- 1, 1, 0)
   \<and> run_transition 0 ex_no_tabs (ex_row 0 EXACT_STR (Some '''') 1 (- 1) ACCEPT) ''abcd'' 4 0
       = Some (0, 4, 0)"
proof -
  let ?t = "ex_row 0 EXACT_STR (Some ''ab'') 1 (- 1) ACCEPT"
  have m: "match_type ?t = EXACT_STR" "match_type (ex_row 0 EXACT_STR None 1 (- 1) ACCEPT) = EXACT_STR"
    "match_type (ex_row 0 EXACT_STR (Some '''') 1 (- 1) ACCEPT) = EXACT_STR"
    by (simp_all add: ex_defs)
  from exact_str_transition [OF m(2), where k = 0 and tabs = ex_no_tabs and buf = "''abcd''"
      and d = 0 and c = 0]
  have 1: "run_transition 0 ex_no_tabs (ex_row 0 EXACT_STR None 1 (- 1) ACCEPT) ''abcd'' 0 0
       = Some (- 1, 0, 0)"
    by (simp add: ex_defs)
  from exact_str_transition [OF m(1), where s = "''ab''" and buf = "''abcd''" and d = 0 and c = 0
      and k = 0 and tabs = ex_no_tabs]
  have 2: "run_transition 0 ex_no_tabs ?t ''abcd'' 0 0 = Some (2, 0, 0)"
    by (simp add: ex_defs)
  from exact_str_transition [OF m(1), where s = "''ab''" and buf = "''abcd''" and d = 1 and c = 0
      and k = 0 and tabs = ex_no_tabs]
  have 3: "run_transition 0 ex_no_tabs ?t ''abcd'' 1 0 = Some (- 1, 1, 0)"
    by (simp add: ex_defs)
  from exact_str_transition [OF m(1), where s = "''ab''" and buf = "''xa''" and d = 1 and c = 0
      and k = 0 and tabs = ex_no_tabs]
  have 4: "run_transition 0 ex_no_tabs ?t ''xa'' 1 0 = Some (- 1, 1, 0)"
    by (simp add: ex_defs)
  from exact_str_transition [OF m(3), where s = "''''" and buf = "''abcd''" and d = 4 and c = 0
      and k = 0 and tabs = ex_no_tabs]
  have 5: "run_transition 0 ex_no_tabs (ex_row 0 EXACT_STR (Some '''') 1 (- 1) ACCEPT) ''abcd'' 4 0
       = Some (0, 4, 0)"
    by (simp add: ex_defs)
  from m(1) 1 2 3 4 5 show ?thesis
    by (intro conjI)
qed

subsection \<open>The cursor copy and the callback\<close>

text \<open>
  C7, as stated, fails in its last part: the callback of a matching row is handed the
  caller's cursor itself, and where it leaves that cursor counts. A row for \<open>''a''\<close>
  whose callback moves the cursor one byte forward matches with length 1 on \<open>''ab''\<close>,
  and the transition moves the caller's cursor from 0 to 2.
\<close>

theorem matcher_works_on_copy_counterexample:
  "run_transition 0 ex_no_tabs
     ((ex_row 0 EXACT_STR (Some ''a'') 1 (- 1) NORMAL)\<lparr>transfn := Some ex_skip\<rparr>) ''ab'' 0 0
     = Some (1, 0, 0)
   \<and> for_loop 0 ex_no_tabs
     [(ex_row 0 EXACT_STR (Some ''a'') 1 (- 1) NORMAL)\<lparr>transfn := Some ex_skip\<rparr>, ex_sentinel]
     ''ab'' (init_vars 0 0)
     = Some (Scan_break \<lparr>cur_state = 1, nbytes_processed = 1, in_accept = 0, data = 2, ctx = 0\<rparr>)"
  by (simp add: ex_defs)

text \<open>
  C7, amended. \<open>run_transition\<close> is handed the cursor by value and returns the copy
  \<open>d'\<close> it worked on; a sub-machine or a predicate may have moved that copy anywhere.
  (1) A pass that finds no transition leaves the caller's cursor where it was.
  (2) After a failed attempt the pass goes on with the caller's cursor unchanged,
  whatever \<open>d'\<close> is. (3) After a match the caller's cursor is the cursor as the
  callback left it plus the matched length \<open>n\<close>, again whatever \<open>d'\<close> is; with no
  callback, or one that leaves the cursor alone, that is the old cursor plus \<open>n\<close>.
\<close>

theorem matcher_works_on_copy:
  "(for_loop k tabs tbl buf v = Some (Scan_end v1) \<longrightarrow> data v1 = data v)
   \<and> (no_sentinel pre \<and> for_loop k tabs pre buf v = Some (Scan_end v2) \<and>
        current_state t \<noteq> - 1 \<and> cur_state v2 = current_state t \<and>
        run_transition k tabs t buf (data v2) (ctx v2) = Some (n, d', c') \<longrightarrow>
        (n < 0 \<longrightarrow>
           for_loop k tabs (pre @ t # ts) buf v = for_loop k tabs ts buf (failure t v2 c')
           \<and> data (failure t v2 c') = data v)
        \<and> (0 \<le> n \<longrightarrow>
           (\<exists>s. for_loop k tabs (pre @ t # ts) buf v = Some s
              \<and> data (scan_vars s) = fst (call_transfn t buf (data v) c') + nat n
              \<and> (transfn t = None \<or> keeps_cursor t \<longrightarrow> data (scan_vars s) = data v + nat n))))"
proof (intro conjI impI)
  assume "for_loop k tabs tbl buf v = Some (Scan_end v1)"
  then show "data v1 = data v"
    by (simp add: for_loop_end_frame)
next
  assume a: "no_sentinel pre \<and> for_loop k tabs pre buf v = Some (Scan_end v2) \<and>
        current_state t \<noteq> - 1 \<and> cur_state v2 = current_state t \<and>
        run_transition k tabs t buf (data v2) (ctx v2) = Some (n, d', c')"
    and n: "n < 0"
  from a have "for_loop k tabs (pre @ t # ts) buf v = for_loop k tabs (t # ts) buf v2"
    by (simp add: for_loop_after)
  with a n show "for_loop k tabs (pre @ t # ts) buf v = for_loop k tabs ts buf (failure t v2 c')"
    by simp
  from a for_loop_end_frame [of k tabs pre buf v v2] show "data (failure t v2 c') = data v"
    by (simp add: failure_frame)
next
  assume a: "no_sentinel pre \<and> for_loop k tabs pre buf v = Some (Scan_end v2) \<and>
        current_state t \<noteq> - 1 \<and> cur_state v2 = current_state t \<and>
        run_transition k tabs t buf (data v2) (ctx v2) = Some (n, d', c')"
    and n: "0 \<le> n"
  from a for_loop_end_frame [of k tabs pre buf v v2] have d: "data v2 = data v"
    by simp
  from a have "for_loop k tabs (pre @ t # ts) buf v = for_loop k tabs (t # ts) buf v2"
    by (simp add: for_loop_after)
  with a n have 1: "for_loop k tabs (pre @ t # ts) buf v = Some (success t buf v2 n c')"
    by simp
  have 2: "data (scan_vars (success t buf v2 n c')) = fst (call_transfn t buf (data v) c') + nat n"
    by (simp add: success_vars d)
  have "transfn t = None \<Longrightarrow> keeps_cursor t"
    by (simp add: keeps_cursor_def)
  then have 3: "transfn t = None \<or> keeps_cursor t \<longrightarrow>
      data (scan_vars (success t buf v2 n c')) = data v + nat n"
    using 2 by (auto simp: call_transfn_keeps)
  from 1 2 3
  show "\<exists>s. for_loop k tabs (pre @ t # ts) buf v = Some s
      \<and> data (scan_vars s) = fst (call_transfn t buf (data v) c') + nat n
      \<and> (transfn t = None \<or> keeps_cursor t \<longrightarrow> data (scan_vars s) = data v + nat n)"
    by blast
qed

text \<open>
  The spec's example: on \<open>''abc''\<close> a sub-machine for \<open>''abz''\<close> consumes \<open>''ab''\<close>,
  counting its first transition in the context, and fails in its state 2. The attempt
  returns \<open>-1\<close> with the copy at 2 and the context at 1; the caller's cursor stays at 0,
  and the run returns \<open>-1\<close> with the cursor at 0 and the context at 1. On \<open>''abz''\<close> the
  sub-machine matches and the caller's cursor moves by the 3 bytes it returned.
\<close>

theorem matcher_works_on_copy_witness:
  "no_sentinel ([]::(nat, unit) table)
   \<and> run_transition 4 ex_tabs ex_fsm_row ''abc'' 0 0 = Some (- 1, 2, 1)
   \<and> for_loop 4 ex_tabs ([] @ ex_fsm_row # [ex_sentinel]) ''abc'' (init_vars 0 0)
       = for_loop 4 ex_tabs [ex_sentinel] ''abc'' (failure ex_fsm_row (init_vars 0 0) 1)
   \<and> data (failure ex_fsm_row (init_vars 0 0) 1) = data (init_vars 0 (0::nat))
   \<and> run_fsm 5 ex_tabs ([] @ ex_fsm_row # [ex_sentinel]) ''abc'' 0 0 = Some (- 1, 0, 1)
   \<and> run_transition 4 ex_tabs ex_fsm_row ''abz'' 0 0 = Some (3, 3, 1)
   \<and> for_loop 4 ex_tabs ([] @ ex_fsm_row # [ex_sentinel]) ''abz'' (init_vars 0 0)
       = Some (Scan_break \<lparr>cur_state = 1, nbytes_processed = 3, in_accept = 1, data = 3, ctx = 1\<rparr>)"
proof -
  let ?v = "init_vars 0 (0::nat)"
  have h1: "no_sentinel ([]::(nat, unit) table)"
    by (simp add: ex_defs)
  have h2: "for_loop 4 ex_tabs [] ''abc'' ?v = Some (Scan_end ?v)"
    by simp
  have h3: "current_state ex_fsm_row \<noteq> - 1" "cur_state ?v = current_state ex_fsm_row"
    by (simp_all add: ex_defs)
  have h4: "run_transition 4 ex_tabs ex_fsm_row ''abc'' (data ?v) (ctx ?v) = Some (- 1, 2, 1)"
    by (simp add: eval_nat_numeral ex_defs)
  from matcher_works_on_copy [of 4 ex_tabs "[]" "''abc''" ?v ?v "[]" ?v ex_fsm_row
      "- 1" 2 1 "[ex_sentinel]"] h1 h2 h3 h4
  have 1: "for_loop 4 ex_tabs ([] @ ex_fsm_row # [ex_sentinel]) ''abc'' ?v
      = for_loop 4 ex_tabs [ex_sentinel] ''abc'' (failure ex_fsm_row ?v 1)
      \<and> data (failure ex_fsm_row ?v 1) = data ?v"
    by simp
  have 2: "run_fsm 5 ex_tabs ([] @ ex_fsm_row # [ex_sentinel]) ''abc'' 0 0 = Some (- 1, 0, 1)"
    by (simp add: eval_nat_numeral ex_defs)
  have 3: "run_transition 4 ex_tabs ex_fsm_row ''abz'' 0 0 = Some (3, 3, 1)"
    by (simp add: eval_nat_numeral ex_defs)
  have 4: "for_loop 4 ex_tabs ([] @ ex_fsm_row # [ex_sentinel]) ''abz'' ?v
       = Some (Scan_break \<lparr>cur_state = 1, nbytes_processed = 3, in_accept = 1, data = 3, ctx = 1\<rparr>)"
    by (simp add: eval_nat_numeral ex_defs)
  from h4 have 5: "run_transition 4 ex_tabs ex_fsm_row ''abc'' 0 0 = Some (- 1, 2, 1)"
    by (simp add: init_vars_def)
  from h1 5 conjunct1 [OF 1] conjunct2 [OF 1] 2 3 4 show ?thesis
    by (intro conjI)
qed

text \<open>
  C8. When an eligible row with a callback \<open>f\<close> matches with length \<open>n\<close>, the
  variables after the transition are built from what \<open>f\<close> returns on the caller's
  cursor as it stood before the transition (not advanced by \<open>n\<close>), the context as the
  matcher left it, and the row's local data: the cursor is the one \<open>f\<close> left plus
  \<open>n\<close>, the context is the one \<open>f\<close> left, and the byte count grows by \<open>n\<close>.
\<close>

theorem transfn_called_before_advance:
  assumes "no_sentinel pre" and "for_loop k tabs pre buf v = Some (Scan_end v2)"
    and "current_state t \<noteq> - 1" and "cur_state v2 = current_state t"
    and "run_transition k tabs t buf (data v2) (ctx v2) = Some (n, d', c')" and "0 \<le> n"
    and "transfn t = Some f" and "f buf (data v) c' (local_context t) = (d1, c1)"
  shows "\<exists>s. for_loop k tabs (pre @ t # ts) buf v = Some s
           \<and> data (scan_vars s) = d1 + nat n
           \<and> ctx (scan_vars s) = c1
           \<and> nbytes_processed (scan_vars s) = nbytes_processed v + n"
proof -
  from for_loop_end_frame [OF assms(2)]
  have fr: "data v2 = data v" "nbytes_processed v2 = nbytes_processed v"
    by simp_all
  have "for_loop k tabs (pre @ t # ts) buf v = for_loop k tabs (t # ts) buf v2"
    using assms(1,2) by (rule for_loop_after)
  also have "\<dots> = Some (success t buf v2 n c')"
    using assms(3-6) by simp
  finally have "for_loop k tabs (pre @ t # ts) buf v = Some (success t buf v2 n c')" .
  moreover from assms(7,8) fr have "call_transfn t buf (data v2) c' = (d1, c1)"
    by (simp add: call_transfn_def)
  ultimately show ?thesis
    using fr by (simp add: success_vars)
qed

text \<open>
  A row for \<open>''ab''\<close> whose callback records the cursor it is called with, tried at
  cursor 1 of \<open>''xabc''\<close>: the callback records 1, and the cursor then moves to 3.
\<close>

theorem transfn_called_before_advance_witness:
  "for_loop 0 ex_no_tabs
     ([ex_row 2 EXACT_STR (Some ''x'') 3 (- 1) NORMAL] @
      (ex_row 0 EXACT_STR (Some ''ab'') 1 (- 1) NORMAL)\<lparr>transfn := Some ex_record\<rparr> #
      [ex_sentinel])
     ''xabc'' \<lparr>cur_state = 0, nbytes_processed = 1, in_accept = 0, data = 1, ctx = 7\<rparr>
   = Some (Scan_break \<lparr>cur_state = 1, nbytes_processed = 3, in_accept = 0, data = 3, ctx = 1\<rparr>)"
proof -
  let ?v = "\<lparr>cur_state = 0, nbytes_processed = 1, in_accept = 0, data = 1, ctx = 7::nat\<rparr>"
  let ?pre = "[ex_row 2 EXACT_STR (Some ''x'') 3 (- 1) NORMAL]"
  let ?t = "(ex_row 0 EXACT_STR (Some ''ab'') 1 (- 1) NORMAL)\<lparr>transfn := Some ex_record\<rparr>"
  have h1: "no_sentinel ?pre"
    by (simp add: ex_defs)
  have h2: "for_loop 0 ex_no_tabs ?pre ''xabc'' ?v = Some (Scan_end ?v)"
    by (simp add: ex_defs)
  have h3: "current_state ?t \<noteq> - 1"
    by (simp add: ex_defs)
  have h4: "cur_state ?v = current_state ?t"
    by (simp add: ex_defs)
  have h5: "run_transition 0 ex_no_tabs ?t ''xabc'' (data ?v) (ctx ?v) = Some (2, 1, 7)"
    by (simp add: ex_defs)
  have h6: "(0::int) \<le> 2"
    by simp
  have h7: "transfn ?t = Some ex_record"
    by (simp add: ex_defs)
  have h8: "ex_record ''xabc'' (data ?v) 7 (local_context ?t) = (1, 1)"
    by (simp add: ex_defs)
  from transfn_called_before_advance [OF h1 h2 h3 h4 h5 h6 h7 h8, of "[ex_sentinel]"]
  obtain s where s: "for_loop 0 ex_no_tabs (?pre @ ?t # [ex_sentinel]) ''xabc'' ?v = Some s"
    and "data (scan_vars s) = 1 + nat 2" and "ctx (scan_vars s) = 1"
    by blast
  have "for_loop 0 ex_no_tabs (?pre @ ?t # [ex_sentinel]) ''xabc'' ?v
      = Some (Scan_break \<lparr>cur_state = 1, nbytes_processed = 3, in_accept = 0, data = 3, ctx = 1\<rparr>)"
    by (simp add: ex_defs)
  with s show ?thesis
    by simp
qed

subsection \<open>The lengths of the committed transitions\<close>

text \<open>
  What \<open>pass_lengths\<close> returns belongs to what \<open>for_loop\<close> returns: nothing for a pass
  that finds no transition, and otherwise one length, not negative, by which the byte
  count has grown.
\<close>

lemma pass_lengths_for_loop:
  "for_loop k tabs ts buf v = Some s \<Longrightarrow>
     \<exists>ns. pass_lengths k tabs ts buf v = Some ns \<and> list_all (\<lambda>n. 0 \<le> n) ns
        \<and> nbytes_processed (scan_vars s) = nbytes_processed v + sum_list ns"
proof (induction ts arbitrary: v)
  case Nil
  then show ?case by auto
next
  case (Cons t ts)
  show ?case
  proof (cases "current_state t \<noteq> - 1 \<and> cur_state v = current_state t")
    case False
    with Cons.prems Cons.IH [of v] show ?thesis
      by (auto split: if_splits)
  next
    case True
    with Cons.prems obtain n d' c' where
      r: "run_transition k tabs t buf (data v) (ctx v) = Some (n, d', c')"
      by (auto split: option.splits)
    show ?thesis
    proof (cases "0 \<le> n")
      case True
      with \<open>current_state t \<noteq> - 1 \<and> cur_state v = current_state t\<close> r Cons.prems
      have "s = success t buf v n c'" by simp
      with True \<open>current_state t \<noteq> - 1 \<and> cur_state v = current_state t\<close> r show ?thesis
        by (simp add: success_vars)
    next
      case False
      with \<open>current_state t \<noteq> - 1 \<and> cur_state v = current_state t\<close> r Cons.prems
      have "for_loop k tabs ts buf (failure t v c') = Some s" by simp
      from Cons.IH [OF this] False \<open>current_state t \<noteq> - 1 \<and> cur_state v = current_state t\<close> r
      show ?thesis
        by (simp add: failure_frame)
    qed
  qed
qed

lemma pass_lengths_after:
  assumes "no_sentinel pre" and "for_loop k tabs pre buf v = Some (Scan_end v2)"
  shows "pass_lengths k tabs (pre @ rest) buf v = pass_lengths k tabs rest buf v2"
  using assms
proof (induction pre arbitrary: v)
  case Nil
  then show ?case by simp
next
  case (Cons t pre)
  then have ns: "current_state t \<noteq> - 1" and rest: "no_sentinel pre"
    by (simp_all add: no_sentinel_def)
  show ?case
  proof (cases "cur_state v = current_state t")
    case False
    with ns Cons.prems(2) Cons.IH [OF rest, of v] show ?thesis by simp
  next
    case True
    with ns Cons.prems(2) obtain n d' c' where
      r: "run_transition k tabs t buf (data v) (ctx v) = Some (n, d', c')"
      by (auto split: option.splits)
    with ns True Cons.prems(2) have n: "n < 0"
      by (auto simp: success_not_end split: if_splits)
    with ns True r Cons.prems(2)
    have "for_loop k tabs pre buf (failure t v c') = Some (Scan_end v2)" by simp
    from Cons.IH [OF rest this] ns True r n show ?thesis by simp
  qed
qed

lemma for_loop_return_flag:
  "for_loop k tabs ts buf v = Some (Scan_return v') \<Longrightarrow> in_accept v' = 0"
proof (induction ts arbitrary: v)
  case Nil
  then show ?case by simp
next
  case (Cons t ts)
  show ?case
  proof (cases "current_state t \<noteq> - 1 \<and> cur_state v = current_state t")
    case False
    with Cons show ?thesis by (auto split: if_splits)
  next
    case True
    with Cons.prems obtain n d' c' where
      r: "run_transition k tabs t buf (data v) (ctx v) = Some (n, d', c')"
      by (auto split: option.splits)
    show ?thesis
    proof (cases "0 \<le> n")
      case True
      with \<open>current_state t \<noteq> - 1 \<and> cur_state v = current_state t\<close> r Cons.prems
      have s: "success t buf v n c' = Scan_return v'" by simp
      then have "state_type t = REJECT"
        using success_break [of t buf v n c'] by (cases "state_type t") auto
      with s success_vars [of t buf v n c'] show ?thesis by simp
    next
      case False
      with \<open>current_state t \<noteq> - 1 \<and> cur_state v = current_state t\<close> r Cons.prems Cons.IH
      show ?thesis by simp
    qed
  qed
qed

text \<open>What the loop returns is decided by the variables it ends with.\<close>

lemma while_loop_return:
  "while_loop k tabs tbl buf v = Some (r, v') \<Longrightarrow> r = fsm_return v'"
proof (induction k arbitrary: v)
  case 0
  then show ?case by (auto split: if_splits)
next
  case (Suc k)
  show ?case
  proof (cases "0 \<le> cur_state v")
    case False
    with Suc.prems show ?thesis by auto
  next
    case True
    with Suc.prems obtain s where s: "for_loop k tabs tbl buf v = Some s"
      by (auto split: option.splits)
    show ?thesis
    proof (cases s)
      case (Scan_end v1)
      with True s Suc.prems Suc.IH show ?thesis by simp
    next
      case (Scan_break v1)
      with True s Suc.prems Suc.IH show ?thesis by simp
    next
      case (Scan_return v1)
      with True s Suc.prems have "r = - 1" "v' = v1" by simp_all
      with s Scan_return for_loop_return_flag [of k tabs tbl buf v v1] show ?thesis
        by (simp add: fsm_return_def)
    qed
  qed
qed

text \<open>The byte count the loop ends with is the sum of the lengths it committed.\<close>

lemma while_loop_lengths:
  "while_loop k tabs tbl buf v = Some (r, v') \<Longrightarrow>
     \<exists>ns. committed_lengths k tabs tbl buf v = Some ns \<and> list_all (\<lambda>n. 0 \<le> n) ns
        \<and> nbytes_processed v' = nbytes_processed v + sum_list ns"
proof (induction k arbitrary: v)
  case 0
  then show ?case by (auto split: if_splits)
next
  case (Suc k)
  show ?case
  proof (cases "0 \<le> cur_state v")
    case False
    with Suc.prems show ?thesis by auto
  next
    case True
    with Suc.prems obtain s where s: "for_loop k tabs tbl buf v = Some s"
      by (auto split: option.splits)
    from pass_lengths_for_loop [OF s] obtain ns where
      ns: "pass_lengths k tabs tbl buf v = Some ns" "list_all (\<lambda>n. 0 \<le> n) ns"
        "nbytes_processed (scan_vars s) = nbytes_processed v + sum_list ns"
      by blast
    show ?thesis
    proof (cases s)
      case (Scan_end v1)
      with True s Suc.prems have "v' = v1\<lparr>cur_state := - 1\<rparr>"
        by (simp add: while_loop_halted)
      moreover from for_loop_end_frame [of k tabs tbl buf v v1] s Scan_end
      have "nbytes_processed v1 = nbytes_processed v" by simp
      ultimately show ?thesis
        using True s Scan_end by simp
    next
      case (Scan_break v1)
      with True s Suc.prems have "while_loop k tabs tbl buf v1 = Some (r, v')" by simp
      from Suc.IH [OF this] obtain ms where
        ms: "committed_lengths k tabs tbl buf v1 = Some ms" "list_all (\<lambda>n. 0 \<le> n) ms"
          "nbytes_processed v' = nbytes_processed v1 + sum_list ms"
        by blast
      with True s Scan_break ns show ?thesis by simp
    next
      case (Scan_return v1)
      with True s Suc.prems have "v' = v1" by simp
      with True s Scan_return ns show ?thesis by simp
    qed
  qed
qed

subsection \<open>Start, halt, the byte count and the accept flag\<close>

text \<open>
  C3. (1) A run is the loop started in state 0, with no byte consumed and the accept
  flag clear. (2) The loop does not run in a negative state: it returns the byte count if
  the flag is 1 and \<open>-1\<close> otherwise. (3) A pass that finds no transition sets the state
  to \<open>-1\<close>, and the run returns as in (2), on the counters the pass started with.
  (4) A pass left by \<^verbatim>\<open>break\<close> is followed by another pass. (5) The transition of an
  eligible row that matches with length \<open>n\<close> ends the pass in the row's on-success
  state, with the byte count grown by \<open>n\<close> and with the flag 1 if the row's type is
  \<^verbatim>\<open>ACCEPT\<close> and 0 otherwise, whatever the flag was before; unless the type is
  \<^verbatim>\<open>REJECT\<close>, the pass is left by \<^verbatim>\<open>break\<close>; \<open>n\<close> is the length that
  \<open>pass_lengths\<close> records. (6) A run that returns \<open>r\<close> has committed transitions of
  lengths \<open>ns\<close>, none negative, and \<open>r\<close> is their sum if the flag is 1 at the end and
  \<open>-1\<close> otherwise; the sum is the byte count at the end.
\<close>

theorem run_fsm_accept_bookkeeping:
  "(run_fsm k tabs tbl buf d c =
      (case while_loop k tabs tbl buf
              \<lparr>cur_state = 0, nbytes_processed = 0, in_accept = 0, data = d, ctx = c\<rparr> of
         None \<Rightarrow> None
       | Some (r, v') \<Rightarrow> Some (r, data v', ctx v')))
   \<and> (cur_state v < 0 \<longrightarrow>
        while_loop k tabs tbl buf v =
          Some (if in_accept v = 1 then nbytes_processed v else - 1, v))
   \<and> (0 \<le> cur_state v \<and> for_loop k tabs tbl buf v = Some (Scan_end v1) \<longrightarrow>
        while_loop (Suc k) tabs tbl buf v =
          Some (if in_accept v = 1 then nbytes_processed v else - 1, v1\<lparr>cur_state := - 1\<rparr>))
   \<and> (0 \<le> cur_state v \<and> for_loop k tabs tbl buf v = Some (Scan_break v2) \<longrightarrow>
        while_loop (Suc k) tabs tbl buf v = while_loop k tabs tbl buf v2)
   \<and> (no_sentinel pre \<and> for_loop k tabs pre buf v = Some (Scan_end v3) \<and>
        current_state t \<noteq> - 1 \<and> cur_state v3 = current_state t \<and>
        run_transition k tabs t buf (data v3) (ctx v3) = Some (n, d', c') \<and> 0 \<le> n \<longrightarrow>
        (\<exists>s. for_loop k tabs (pre @ t # ts) buf v = Some s \<and>
             cur_state (scan_vars s) = state_pass t \<and>
             nbytes_processed (scan_vars s) = nbytes_processed v + n \<and>
             in_accept (scan_vars s) = (if state_type t = ACCEPT then 1 else 0) \<and>
             (state_type t \<noteq> REJECT \<longrightarrow> s = Scan_break (scan_vars s))) \<and>
        pass_lengths k tabs (pre @ t # ts) buf v = Some [n])
   \<and> (run_fsm k tabs tbl buf d c = Some (r, d1, c1) \<longrightarrow>
        (\<exists>ns v4. committed_lengths k tabs tbl buf
                    \<lparr>cur_state = 0, nbytes_processed = 0, in_accept = 0, data = d, ctx = c\<rparr>
                  = Some ns \<and>
                list_all (\<lambda>n. 0 \<le> n) ns \<and>
                while_loop k tabs tbl buf
                    \<lparr>cur_state = 0, nbytes_processed = 0, in_accept = 0, data = d, ctx = c\<rparr>
                  = Some (r, v4) \<and>
                nbytes_processed v4 = sum_list ns \<and>
                r = (if in_accept v4 = 1 then sum_list ns else - 1)))"
proof (intro conjI impI)
  show "run_fsm k tabs tbl buf d c =
      (case while_loop k tabs tbl buf
              \<lparr>cur_state = 0, nbytes_processed = 0, in_accept = 0, data = d, ctx = c\<rparr> of
         None \<Rightarrow> None
       | Some (r, v') \<Rightarrow> Some (r, data v', ctx v'))"
    by (simp add: run_fsm.simps init_vars_def)
next
  assume "cur_state v < 0"
  then show "while_loop k tabs tbl buf v =
      Some (if in_accept v = 1 then nbytes_processed v else - 1, v)"
    by (simp add: while_loop_halted fsm_return_def)
next
  assume a: "0 \<le> cur_state v \<and> for_loop k tabs tbl buf v = Some (Scan_end v1)"
  then have "while_loop (Suc k) tabs tbl buf v = while_loop k tabs tbl buf (v1\<lparr>cur_state := - 1\<rparr>)"
    by simp
  also have "\<dots> = Some (fsm_return (v1\<lparr>cur_state := - 1\<rparr>), v1\<lparr>cur_state := - 1\<rparr>)"
    by (rule while_loop_halted) simp
  also from a for_loop_end_frame [of k tabs tbl buf v v1]
  have "fsm_return (v1\<lparr>cur_state := - 1\<rparr>) = (if in_accept v = 1 then nbytes_processed v else - 1)"
    by (simp add: fsm_return_def)
  finally show "while_loop (Suc k) tabs tbl buf v =
      Some (if in_accept v = 1 then nbytes_processed v else - 1, v1\<lparr>cur_state := - 1\<rparr>)" .
next
  assume "0 \<le> cur_state v \<and> for_loop k tabs tbl buf v = Some (Scan_break v2)"
  then show "while_loop (Suc k) tabs tbl buf v = while_loop k tabs tbl buf v2"
    by simp
next
  assume a: "no_sentinel pre \<and> for_loop k tabs pre buf v = Some (Scan_end v3) \<and>
        current_state t \<noteq> - 1 \<and> cur_state v3 = current_state t \<and>
        run_transition k tabs t buf (data v3) (ctx v3) = Some (n, d', c') \<and> 0 \<le> n"
  from a for_loop_end_frame [of k tabs pre buf v v3]
  have fr: "nbytes_processed v3 = nbytes_processed v" by simp
  from a have "for_loop k tabs (pre @ t # ts) buf v = for_loop k tabs (t # ts) buf v3"
    by (simp add: for_loop_after)
  also from a have "\<dots> = Some (success t buf v3 n c')"
    by simp
  finally have 1: "for_loop k tabs (pre @ t # ts) buf v = Some (success t buf v3 n c')" .
  have 2: "cur_state (scan_vars (success t buf v3 n c')) = state_pass t"
    and 3: "nbytes_processed (scan_vars (success t buf v3 n c')) = nbytes_processed v + n"
    and 4: "in_accept (scan_vars (success t buf v3 n c')) = (if state_type t = ACCEPT then 1 else 0)"
    by (simp_all add: success_vars fr)
  have 5: "state_type t \<noteq> REJECT \<longrightarrow>
      success t buf v3 n c' = Scan_break (scan_vars (success t buf v3 n c'))"
    using success_break [of t buf v3 n c'] by blast
  from 1 2 3 4 5
  show "\<exists>s. for_loop k tabs (pre @ t # ts) buf v = Some s \<and>
             cur_state (scan_vars s) = state_pass t \<and>
             nbytes_processed (scan_vars s) = nbytes_processed v + n \<and>
             in_accept (scan_vars s) = (if state_type t = ACCEPT then 1 else 0) \<and>
             (state_type t \<noteq> REJECT \<longrightarrow> s = Scan_break (scan_vars s))"
    by (intro exI conjI)
  from a have "pass_lengths k tabs (pre @ t # ts) buf v = pass_lengths k tabs (t # ts) buf v3"
    by (simp add: pass_lengths_after)
  with a show "pass_lengths k tabs (pre @ t # ts) buf v = Some [n]"
    by simp
next
  assume a: "run_fsm k tabs tbl buf d c = Some (r, d1, c1)"
  let ?v0 = "\<lparr>cur_state = 0, nbytes_processed = 0, in_accept = 0, data = d, ctx = c\<rparr>"
  from a obtain v4 where w: "while_loop k tabs tbl buf ?v0 = Some (r, v4)"
    by (auto simp: run_fsm.simps init_vars_def split: option.splits)
  from while_loop_lengths [OF w] obtain ns where
    ns: "committed_lengths k tabs tbl buf ?v0 = Some ns" "list_all (\<lambda>n. 0 \<le> n) ns"
      "nbytes_processed v4 = sum_list ns"
    by auto
  from while_loop_return [OF w] ns(3)
  have "r = (if in_accept v4 = 1 then sum_list ns else - 1)"
    by (simp add: fsm_return_def)
  with w ns
  show "\<exists>ns v4. committed_lengths k tabs tbl buf ?v0 = Some ns \<and>
                list_all (\<lambda>n. 0 \<le> n) ns \<and>
                while_loop k tabs tbl buf ?v0 = Some (r, v4) \<and>
                nbytes_processed v4 = sum_list ns \<and>
                r = (if in_accept v4 = 1 then sum_list ns else - 1)"
    by (intro exI conjI)
qed


text \<open>
  A run with two transitions: \<open>''ab''\<close> to state 1, then \<open>''cd''\<close> to the accepting
  state 2, on \<open>''abcd''\<close>. The second transition starts from the count 2 and the flag 0
  and leaves the count 4 and the flag 1; the third pass finds no row for state 2, and
  the run returns 4, the sum of the committed lengths 2 and 2.
\<close>

theorem run_fsm_accept_bookkeeping_witness:
  "no_sentinel [ex_row 0 EXACT_STR (Some ''ab'') 1 (- 1) NORMAL]
   \<and> for_loop (Suc 0) ex_no_tabs [ex_row 0 EXACT_STR (Some ''ab'') 1 (- 1) NORMAL] ''abcd''
       \<lparr>cur_state = 1, nbytes_processed = 2, in_accept = 0, data = 2, ctx = 0\<rparr>
       = Some (Scan_end \<lparr>cur_state = 1, nbytes_processed = 2, in_accept = 0, data = 2, ctx = 0\<rparr>)
   \<and> run_transition (Suc 0) ex_no_tabs (ex_row 1 EXACT_STR (Some ''cd'') 2 (- 1) ACCEPT) ''abcd''
       2 0 = Some (2, 2, 0)
   \<and> (\<exists>s. for_loop (Suc 0) ex_no_tabs ex_two_table ''abcd''
            \<lparr>cur_state = 1, nbytes_processed = 2, in_accept = 0, data = 2, ctx = 0\<rparr> = Some s
       \<and> cur_state (scan_vars s) = 2 \<and> nbytes_processed (scan_vars s) = 2 + 2
       \<and> in_accept (scan_vars s) = 1 \<and> s = Scan_break (scan_vars s))
   \<and> pass_lengths (Suc 0) ex_no_tabs ex_two_table ''abcd''
        \<lparr>cur_state = 1, nbytes_processed = 2, in_accept = 0, data = 2, ctx = 0\<rparr> = Some [2]
   \<and> while_loop (Suc (Suc 0)) ex_no_tabs ex_two_table ''abcd''
        \<lparr>cur_state = 1, nbytes_processed = 2, in_accept = 0, data = 2, ctx = 0\<rparr>
       = while_loop (Suc 0) ex_no_tabs ex_two_table ''abcd''
        \<lparr>cur_state = 2, nbytes_processed = 4, in_accept = 1, data = 4, ctx = 0\<rparr>
   \<and> for_loop 0 ex_no_tabs ex_two_table ''abcd''
        \<lparr>cur_state = 2, nbytes_processed = 4, in_accept = 1, data = 4, ctx = 0\<rparr>
       = Some (Scan_end \<lparr>cur_state = 2, nbytes_processed = 4, in_accept = 1, data = 4, ctx = 0\<rparr>)
   \<and> while_loop (Suc 0) ex_no_tabs ex_two_table ''abcd''
        \<lparr>cur_state = 2, nbytes_processed = 4, in_accept = 1, data = 4, ctx = 0\<rparr>
       = Some (4, \<lparr>cur_state = - 1, nbytes_processed = 4, in_accept = 1, data = 4, ctx = 0\<rparr>)
   \<and> while_loop 0 ex_no_tabs ex_two_table ''abcd''
        \<lparr>cur_state = - 1, nbytes_processed = 4, in_accept = 1, data = 4, ctx = 0\<rparr>
       = Some (4, \<lparr>cur_state = - 1, nbytes_processed = 4, in_accept = 1, data = 4, ctx = 0\<rparr>)
   \<and> run_fsm (Suc (Suc (Suc 0))) ex_no_tabs ex_two_table ''abcd'' 0 0 = Some (4, 4, 0)
   \<and> committed_lengths (Suc (Suc (Suc 0))) ex_no_tabs ex_two_table ''abcd''
        \<lparr>cur_state = 0, nbytes_processed = 0, in_accept = 0, data = 0, ctx = 0\<rparr> = Some [2, 2]
   \<and> (\<exists>ns v4. committed_lengths (Suc (Suc (Suc 0))) ex_no_tabs ex_two_table ''abcd''
          \<lparr>cur_state = 0, nbytes_processed = 0, in_accept = 0, data = 0, ctx = 0\<rparr> = Some ns
       \<and> list_all (\<lambda>n. 0 \<le> n) ns
       \<and> while_loop (Suc (Suc (Suc 0))) ex_no_tabs ex_two_table ''abcd''
          \<lparr>cur_state = 0, nbytes_processed = 0, in_accept = 0, data = 0, ctx = 0\<rparr> = Some (4, v4)
       \<and> nbytes_processed v4 = sum_list ns
       \<and> (4::int) = (if in_accept v4 = 1 then sum_list ns else - 1))"
proof -
  let ?pre = "[ex_row 0 EXACT_STR (Some ''ab'') 1 (- 1) NORMAL]"
  let ?t = "ex_row 1 EXACT_STR (Some ''cd'') 2 (- 1) ACCEPT"
  let ?v1 = "\<lparr>cur_state = 1, nbytes_processed = 2, in_accept = 0, data = 2, ctx = 0::nat\<rparr>"
  let ?v2 = "\<lparr>cur_state = 2, nbytes_processed = 4, in_accept = 1, data = 4, ctx = 0::nat\<rparr>"
  let ?v3 = "\<lparr>cur_state = - 1, nbytes_processed = 4, in_accept = 1, data = 4, ctx = 0::nat\<rparr>"
  have tbl: "ex_two_table = ?pre @ ?t # [ex_sentinel]"
    by (simp add: ex_two_table_def)
  note A = run_fsm_accept_bookkeeping [where k = "Suc 0" and tabs = ex_no_tabs
      and tbl = ex_two_table and buf = "''abcd''" and v = ?v1 and ?v2.0 = ?v2 and pre = ?pre
      and ?v3.0 = ?v1 and t = ?t and n = 2 and d' = 2 and c' = 0 and ts = "[ex_sentinel]"]
  note B = run_fsm_accept_bookkeeping [where k = 0 and tabs = ex_no_tabs
      and tbl = ex_two_table and buf = "''abcd''" and v = ?v2 and ?v1.0 = ?v2]
  note C = run_fsm_accept_bookkeeping [where k = 0 and tabs = ex_no_tabs
      and tbl = ex_two_table and buf = "''abcd''" and v = ?v3]
  note D = run_fsm_accept_bookkeeping [where k = "Suc (Suc (Suc 0))" and tabs = ex_no_tabs
      and tbl = ex_two_table and buf = "''abcd''" and d = 0 and c = 0 and r = 4
      and ?d1.0 = 4 and ?c1.0 = 0]
  have h1: "no_sentinel ?pre"
    by (simp add: ex_defs)
  have h2: "for_loop (Suc 0) ex_no_tabs ?pre ''abcd'' ?v1 = Some (Scan_end ?v1)"
    by (simp add: ex_defs)
  have h3: "run_transition (Suc 0) ex_no_tabs ?t ''abcd'' 2 0 = Some (2, 2, 0)"
    by (simp add: ex_defs)
  have h4: "for_loop 0 ex_no_tabs ex_two_table ''abcd'' ?v2 = Some (Scan_end ?v2)"
    by (simp add: ex_defs)
  have h5: "run_fsm (Suc (Suc (Suc 0))) ex_no_tabs ex_two_table ''abcd'' 0 0 = Some (4, 4, 0)"
    by (simp add: ex_defs)
  have h6: "for_loop (Suc 0) ex_no_tabs ex_two_table ''abcd'' ?v1 = Some (Scan_break ?v2)"
    by (simp add: ex_defs)
  from A [THEN conjunct2, THEN conjunct2, THEN conjunct2, THEN conjunct2, THEN conjunct1]
    h1 h2 h3
  have a5: "(\<exists>s. for_loop (Suc 0) ex_no_tabs ex_two_table ''abcd'' ?v1 = Some s
       \<and> cur_state (scan_vars s) = 2 \<and> nbytes_processed (scan_vars s) = 2 + 2
       \<and> in_accept (scan_vars s) = 1 \<and> s = Scan_break (scan_vars s))
     \<and> pass_lengths (Suc 0) ex_no_tabs ex_two_table ''abcd'' ?v1 = Some [2]"
    by (simp add: tbl ex_row_def)
  from A [THEN conjunct2, THEN conjunct2, THEN conjunct2, THEN conjunct1] h6
  have a4: "while_loop (Suc (Suc 0)) ex_no_tabs ex_two_table ''abcd'' ?v1
      = while_loop (Suc 0) ex_no_tabs ex_two_table ''abcd'' ?v2"
    by simp
  from B [THEN conjunct2, THEN conjunct2, THEN conjunct1] h4
  have b3: "while_loop (Suc 0) ex_no_tabs ex_two_table ''abcd'' ?v2 = Some (4, ?v3)"
    by simp
  from C [THEN conjunct2, THEN conjunct1]
  have c2: "while_loop 0 ex_no_tabs ex_two_table ''abcd'' ?v3 = Some (4, ?v3)"
    by simp
  from D [THEN conjunct2, THEN conjunct2, THEN conjunct2, THEN conjunct2, THEN conjunct2] h5
  have d6: "\<exists>ns v4. committed_lengths (Suc (Suc (Suc 0))) ex_no_tabs ex_two_table ''abcd''
          \<lparr>cur_state = 0, nbytes_processed = 0, in_accept = 0, data = 0, ctx = 0\<rparr> = Some ns
       \<and> list_all (\<lambda>n. 0 \<le> n) ns
       \<and> while_loop (Suc (Suc (Suc 0))) ex_no_tabs ex_two_table ''abcd''
          \<lparr>cur_state = 0, nbytes_processed = 0, in_accept = 0, data = 0, ctx = 0\<rparr> = Some (4, v4)
       \<and> nbytes_processed v4 = sum_list ns
       \<and> (4::int) = (if in_accept v4 = 1 then sum_list ns else - 1)"
    by blast
  have e: "committed_lengths (Suc (Suc (Suc 0))) ex_no_tabs ex_two_table ''abcd''
        \<lparr>cur_state = 0, nbytes_processed = 0, in_accept = 0, data = 0, ctx = 0\<rparr> = Some [2, 2]"
    by (simp add: ex_defs)
  from h1 h2 h3 conjunct1 [OF a5] conjunct2 [OF a5] a4 h4 b3 c2 h5 e d6 show ?thesis
    by (intro conjI)
qed

subsection \<open>The cursor after a failed run\<close>

text \<open>
  C4, as stated, fails: a run that commits \<open>''a''\<close> and then finds no row for state 1
  returns \<open>-1\<close> with the cursor at 1, not at 0 where it started.
\<close>

theorem failed_run_cursor_counterexample:
  "run_fsm (Suc (Suc 0)) ex_no_tabs
     [ex_row 0 EXACT_STR (Some ''a'') 1 (- 1) NORMAL, ex_sentinel] ''ab'' 0 0
   = Some (- 1, 1, 0)"
  by (simp add: ex_defs)

text \<open>
  C4, amended. There is no roll-back of the cursor. (1) When a run returns \<open>-1\<close> and
  the callbacks of its table leave the cursor alone, the cursor stands at its value at
  entry plus the sum of the lengths of the transitions that the run committed, none of
  them negative. (2) Each committed transition, that of a rejecting row included, moves
  the cursor forward by its matched length, the length \<open>pass_lengths\<close> records, when
  the row's callback leaves the cursor alone. (3) The \<^verbatim>\<open>return -1\<close> of a rejecting row
  ends the run with the variables, hence the cursor, that its transition left. (4) A
  run whose first pass finds no transition returns \<open>-1\<close> with the cursor unchanged,
  whatever the callbacks do.
\<close>

theorem failed_run_cursor:
  "(list_all keeps_cursor tbl \<and> run_fsm k tabs tbl buf d c = Some (- 1, d', c') \<longrightarrow>
      (\<exists>ns. committed_lengths k tabs tbl buf (init_vars d c) = Some ns
            \<and> list_all (\<lambda>n. 0 \<le> n) ns \<and> d' = d + nat (sum_list ns)))
   \<and> (no_sentinel pre \<and> for_loop k tabs pre buf v = Some (Scan_end v2) \<and>
        current_state t \<noteq> - 1 \<and> cur_state v2 = current_state t \<and>
        run_transition k tabs t buf (data v2) (ctx v2) = Some (n, d2, c2) \<and> 0 \<le> n \<and>
        keeps_cursor t \<longrightarrow>
        (\<exists>s. for_loop k tabs (pre @ t # ts) buf v = Some s
            \<and> data (scan_vars s) = data v + nat n
            \<and> (state_type t = REJECT \<longrightarrow> s = Scan_return (scan_vars s)))
        \<and> pass_lengths k tabs (pre @ t # ts) buf v = Some [n])
   \<and> (0 \<le> cur_state v \<and> for_loop k tabs tbl buf v = Some (Scan_return v3) \<longrightarrow>
        while_loop (Suc k) tabs tbl buf v = Some (- 1, v3))
   \<and> (for_loop k tabs tbl buf (init_vars d c) = Some (Scan_end v1) \<longrightarrow>
        run_fsm (Suc k) tabs tbl buf d c = Some (- 1, d, ctx v1))"
proof (intro conjI impI)
  assume a: "list_all keeps_cursor tbl \<and> run_fsm k tabs tbl buf d c = Some (- 1, d', c')"
  then obtain v where w: "while_loop k tabs tbl buf (init_vars d c) = Some (- 1, v)"
    and d': "d' = data v"
    by (auto simp: run_fsm.simps split: option.splits)
  from a have "\<forall>t\<in>set tbl. keeps_cursor t" by (simp add: list_all_iff)
  from while_loop_cursor [OF this w]
  have cur: "int (data v) - nbytes_processed v = int d"
    by (simp add: init_vars_def)
  from while_loop_lengths [OF w] obtain ns where
    ns: "committed_lengths k tabs tbl buf (init_vars d c) = Some ns" "list_all (\<lambda>n. 0 \<le> n) ns"
      "nbytes_processed v = sum_list ns"
    by (auto simp: init_vars_def)
  from ns(2) have "0 \<le> sum_list ns"
    by (induction ns) auto
  with cur ns(3) have "data v = d + nat (sum_list ns)" by linarith
  with d' ns(1,2)
  show "\<exists>ns. committed_lengths k tabs tbl buf (init_vars d c) = Some ns
            \<and> list_all (\<lambda>n. 0 \<le> n) ns \<and> d' = d + nat (sum_list ns)"
    by (intro exI conjI) simp_all
next
  assume a: "no_sentinel pre \<and> for_loop k tabs pre buf v = Some (Scan_end v2) \<and>
        current_state t \<noteq> - 1 \<and> cur_state v2 = current_state t \<and>
        run_transition k tabs t buf (data v2) (ctx v2) = Some (n, d2, c2) \<and> 0 \<le> n \<and>
        keeps_cursor t"
  from a for_loop_end_frame [of k tabs pre buf v v2]
  have fr: "data v2 = data v" by simp
  from a have "for_loop k tabs (pre @ t # ts) buf v = for_loop k tabs (t # ts) buf v2"
    by (simp add: for_loop_after)
  also from a have "\<dots> = Some (success t buf v2 n c2)"
    by simp
  finally have 1: "for_loop k tabs (pre @ t # ts) buf v = Some (success t buf v2 n c2)" .
  from a have 2: "data (scan_vars (success t buf v2 n c2)) = data v + nat n"
    by (simp add: success_vars call_transfn_keeps fr)
  have 3: "state_type t = REJECT \<longrightarrow>
      success t buf v2 n c2 = Scan_return (scan_vars (success t buf v2 n c2))"
    using success_return [of t buf v2 n c2] by blast
  from 1 2 3
  show "\<exists>s. for_loop k tabs (pre @ t # ts) buf v = Some s
            \<and> data (scan_vars s) = data v + nat n
            \<and> (state_type t = REJECT \<longrightarrow> s = Scan_return (scan_vars s))"
    by (intro exI conjI)
  from a have "pass_lengths k tabs (pre @ t # ts) buf v = pass_lengths k tabs (t # ts) buf v2"
    by (simp add: pass_lengths_after)
  with a show "pass_lengths k tabs (pre @ t # ts) buf v = Some [n]"
    by simp
next
  assume "0 \<le> cur_state v \<and> for_loop k tabs tbl buf v = Some (Scan_return v3)"
  then show "while_loop (Suc k) tabs tbl buf v = Some (- 1, v3)"
    by simp
next
  assume a: "for_loop k tabs tbl buf (init_vars d c) = Some (Scan_end v1)"
  from for_loop_end_frame [OF a] have f: "data v1 = d" "in_accept v1 = 0"
    by (simp_all add: init_vars_def)
  have "while_loop (Suc k) tabs tbl buf (init_vars d c)
      = while_loop k tabs tbl buf (v1\<lparr>cur_state := - 1\<rparr>)"
    using a by (simp add: init_vars_def)
  also have "\<dots> = Some (fsm_return (v1\<lparr>cur_state := - 1\<rparr>), v1\<lparr>cur_state := - 1\<rparr>)"
    by (rule while_loop_halted) simp
  finally show "run_fsm (Suc k) tabs tbl buf d c = Some (- 1, d, ctx v1)"
    using f by (simp add: run_fsm.simps fsm_return_def)
qed

text \<open>
  Runs that fail after two committed transitions. On \<open>''aab''\<close> the third row matches
  \<open>''b''\<close> and rejects: the run returns \<open>-1\<close> with the cursor at 3, the three lengths
  1, 1 and 1 added to 0. On \<open>''aax''\<close> the third pass finds no transition: the cursor
  is at 2. On \<open>''xab''\<close> the first pass finds none: the cursor is at 0.
\<close>

theorem failed_run_cursor_witness:
  "list_all keeps_cursor ex_reject_table
   \<and> run_fsm (Suc (Suc (Suc 0))) ex_no_tabs ex_reject_table ''aab'' 0 0 = Some (- 1, 3, 0)
   \<and> committed_lengths (Suc (Suc (Suc 0))) ex_no_tabs ex_reject_table ''aab'' (init_vars 0 0)
       = Some [1, 1, 1]
   \<and> (\<exists>ns. committed_lengths (Suc (Suc (Suc 0))) ex_no_tabs ex_reject_table ''aab'' (init_vars 0 0)
         = Some ns \<and> list_all (\<lambda>n. 0 \<le> n) ns \<and> (3::nat) = 0 + nat (sum_list ns))
   \<and> run_fsm (Suc (Suc (Suc 0))) ex_no_tabs ex_reject_table ''aax'' 0 0 = Some (- 1, 2, 0)
   \<and> committed_lengths (Suc (Suc (Suc 0))) ex_no_tabs ex_reject_table ''aax'' (init_vars 0 0)
       = Some [1, 1]
   \<and> (\<exists>ns. committed_lengths (Suc (Suc (Suc 0))) ex_no_tabs ex_reject_table ''aax'' (init_vars 0 0)
         = Some ns \<and> list_all (\<lambda>n. 0 \<le> n) ns \<and> (2::nat) = 0 + nat (sum_list ns))
   \<and> run_transition 0 ex_no_tabs (ex_row 2 EXACT_STR (Some ''b'') 3 (- 1) REJECT) ''aab'' 2 0
       = Some (1, 2, 0)
   \<and> (\<exists>s. for_loop 0 ex_no_tabs ex_reject_table ''aab''
            \<lparr>cur_state = 2, nbytes_processed = 2, in_accept = 0, data = 2, ctx = 0\<rparr> = Some s
       \<and> data (scan_vars s) = 2 + nat 1 \<and> s = Scan_return (scan_vars s))
   \<and> pass_lengths 0 ex_no_tabs ex_reject_table ''aab''
        \<lparr>cur_state = 2, nbytes_processed = 2, in_accept = 0, data = 2, ctx = 0\<rparr> = Some [1]
   \<and> while_loop (Suc 0) ex_no_tabs ex_reject_table ''aab''
        \<lparr>cur_state = 2, nbytes_processed = 2, in_accept = 0, data = 2, ctx = 0\<rparr>
       = Some (- 1, \<lparr>cur_state = 3, nbytes_processed = 3, in_accept = 0, data = 3, ctx = 0\<rparr>)
   \<and> for_loop 0 ex_no_tabs ex_reject_table ''xab'' (init_vars 0 0)
       = Some (Scan_end (init_vars 0 0))
   \<and> run_fsm (Suc 0) ex_no_tabs ex_reject_table ''xab'' 0 0 = Some (- 1, 0, 0)"
proof -
  let ?pre = "[ex_row 0 EXACT_STR (Some ''a'') 1 (- 1) NORMAL,
               ex_row 1 EXACT_STR (Some ''a'') 2 (- 1) NORMAL]"
  let ?t = "ex_row 2 EXACT_STR (Some ''b'') 3 (- 1) REJECT"
  let ?v = "\<lparr>cur_state = 2, nbytes_processed = 2, in_accept = 0, data = 2, ctx = 0::nat\<rparr>"
  let ?w = "\<lparr>cur_state = 3, nbytes_processed = 3, in_accept = 0, data = 3, ctx = 0::nat\<rparr>"
  have tbl: "ex_reject_table = ?pre @ ?t # [ex_sentinel]"
    by (simp add: ex_reject_table_def)
  have h1: "list_all keeps_cursor ex_reject_table"
    by (simp add: ex_defs)
  have h2: "run_fsm (Suc (Suc (Suc 0))) ex_no_tabs ex_reject_table ''aab'' 0 0 = Some (- 1, 3, 0)"
    by (simp add: ex_defs)
  have h3: "run_fsm (Suc (Suc (Suc 0))) ex_no_tabs ex_reject_table ''aax'' 0 0 = Some (- 1, 2, 0)"
    by (simp add: ex_defs)
  have h4: "no_sentinel ?pre \<and> for_loop 0 ex_no_tabs ?pre ''aab'' ?v = Some (Scan_end ?v) \<and>
      current_state ?t \<noteq> - 1 \<and> cur_state ?v = current_state ?t \<and>
      run_transition 0 ex_no_tabs ?t ''aab'' (data ?v) (ctx ?v) = Some (1, 2, 0) \<and> (0::int) \<le> 1 \<and>
      keeps_cursor ?t"
    by (simp add: ex_defs)
  have h5: "for_loop 0 ex_no_tabs ex_reject_table ''aab'' ?v = Some (Scan_return ?w)"
    by (simp add: ex_defs)
  have h6: "for_loop 0 ex_no_tabs ex_reject_table ''xab'' (init_vars 0 0)
      = Some (Scan_end (init_vars 0 0))"
    by (simp add: ex_defs)
  have e1: "committed_lengths (Suc (Suc (Suc 0))) ex_no_tabs ex_reject_table ''aab'' (init_vars 0 0)
      = Some [1, 1, 1]"
    by (simp add: ex_defs)
  have e2: "committed_lengths (Suc (Suc (Suc 0))) ex_no_tabs ex_reject_table ''aax'' (init_vars 0 0)
      = Some [1, 1]"
    by (simp add: ex_defs)
  from failed_run_cursor [where tbl = ex_reject_table and k = "Suc (Suc (Suc 0))"
      and tabs = ex_no_tabs and buf = "''aab''" and d = 0 and c = 0 and d' = 3 and c' = 0,
      THEN conjunct1] h1 h2
  have c1: "\<exists>ns. committed_lengths (Suc (Suc (Suc 0))) ex_no_tabs ex_reject_table ''aab''
      (init_vars 0 0) = Some ns \<and> list_all (\<lambda>n. 0 \<le> n) ns \<and> (3::nat) = 0 + nat (sum_list ns)"
    by blast
  from failed_run_cursor [where tbl = ex_reject_table and k = "Suc (Suc (Suc 0))"
      and tabs = ex_no_tabs and buf = "''aax''" and d = 0 and c = 0 and d' = 2 and c' = 0,
      THEN conjunct1] h1 h3
  have c2: "\<exists>ns. committed_lengths (Suc (Suc (Suc 0))) ex_no_tabs ex_reject_table ''aax''
      (init_vars 0 0) = Some ns \<and> list_all (\<lambda>n. 0 \<le> n) ns \<and> (2::nat) = 0 + nat (sum_list ns)"
    by blast
  from failed_run_cursor [where k = 0 and tabs = ex_no_tabs and buf = "''aab''" and pre = ?pre
      and v = ?v and ?v2.0 = ?v and t = ?t and n = 1 and ?d2.0 = 2 and ?c2.0 = 0
      and ts = "[ex_sentinel]", THEN conjunct2, THEN conjunct1, rule_format, OF h4]
  have c3: "(\<exists>s. for_loop 0 ex_no_tabs ex_reject_table ''aab'' ?v = Some s
       \<and> data (scan_vars s) = 2 + nat 1 \<and> s = Scan_return (scan_vars s))
     \<and> pass_lengths 0 ex_no_tabs ex_reject_table ''aab'' ?v = Some [1]"
    by (simp add: tbl ex_row_def)
  from failed_run_cursor [where k = 0 and tabs = ex_no_tabs and tbl = ex_reject_table
      and buf = "''aab''" and v = ?v and ?v3.0 = ?w,
      THEN conjunct2, THEN conjunct2, THEN conjunct1] h5
  have c4: "while_loop (Suc 0) ex_no_tabs ex_reject_table ''aab'' ?v = Some (- 1, ?w)"
    by simp
  from failed_run_cursor [where k = 0 and tabs = ex_no_tabs and tbl = ex_reject_table
      and buf = "''xab''" and d = 0 and c = 0 and ?v1.0 = "init_vars 0 0",
      THEN conjunct2, THEN conjunct2, THEN conjunct2] h6
  have c5: "run_fsm (Suc 0) ex_no_tabs ex_reject_table ''xab'' 0 0 = Some (- 1, 0, 0)"
    by (simp add: init_vars_def)
  from h4 have h7: "run_transition 0 ex_no_tabs ?t ''aab'' 2 0 = Some (1, 2, 0)"
    by simp
  from h1 h2 e1 c1 h3 e2 c2 h7 conjunct1 [OF c3] conjunct2 [OF c3] c4 h6 c5 show ?thesis
    by (intro conjI)
qed

subsection \<open>Termination\<close>

lemma run_transition_mono:
  "run_transition k tabs t buf d c = Some r \<Longrightarrow> k \<le> k' \<Longrightarrow> run_transition k' tabs t buf d c = Some r"
  using run_transition_mono_step [of k tabs buf k'] while_loop_mono [of k tabs _ buf _ _ k'] by blast

lemma advancing_mono:
  assumes "advancing k tabs buf t" and "k \<le> k'"
  shows "advancing k' tabs buf t"
  unfolding advancing_def
proof (intro conjI allI)
  from assms(1) show "keeps_cursor t" by (simp add: advancing_def)
next
  fix d c
  from assms(1) obtain n d' c' where
    r: "run_transition k tabs t buf d c = Some (n, d', c')"
    and n: "0 \<le> n \<longrightarrow> 0 < n \<and> d + nat n \<le> length buf"
    unfolding advancing_def by blast
  from run_transition_mono [OF r assms(2)] n
  show "\<exists>n d' c'. run_transition k' tabs t buf d c = Some (n, d', c') \<and>
         (0 \<le> n \<longrightarrow> 0 < n \<and> d + nat n \<le> length buf)"
    by blast
qed

lemma chr_match_inside: "chr_match buf d s \<Longrightarrow> d < length buf"
proof -
  assume "chr_match buf d s"
  then obtain i where "i < strlen s" and "byte_at buf d = s ! i"
    by (auto simp: chr_match_def list_ex_iff)
  with c_string_nth(2) [of i s] show ?thesis
    by (simp add: byte_at_not_NUL)
qed

lemma memcmp_eq_inside:
  assumes "memcmp_eq buf d s (strlen s)" and "0 < strlen s"
  shows "d + strlen s \<le> length buf"
proof -
  from assms(1) have "take (strlen s) (drop d buf) = takeWhile (\<lambda>c. c \<noteq> NUL) s"
    by (simp only: memcmp_eq_iff)
  then have "length (take (strlen s) (drop d buf)) = strlen s"
    by (simp only: strlen_def)
  with assms(2) show ?thesis by simp
qed

text \<open>
  What an attempt on a row that makes progress returns, with any fuel that lets it
  return.
\<close>

lemma advancing_result:
  assumes "advancing k tabs buf t" and "run_transition j tabs t buf d c = Some (n, d', c')"
    and "0 \<le> n"
  shows "0 < n \<and> d + nat n \<le> length buf"
proof -
  from assms(1) have "advancing (max j k) tabs buf t"
    by (rule advancing_mono) simp
  then obtain n1 d1 c1 where
    r: "run_transition (max j k) tabs t buf d c = Some (n1, d1, c1)"
    and n: "0 \<le> n1 \<longrightarrow> 0 < n1 \<and> d + nat n1 \<le> length buf"
    unfolding advancing_def by blast
  from run_transition_mono [OF assms(2), of "max j k"] r have "n1 = n" by simp
  with n assms(3) show ?thesis by simp
qed

text \<open>
  Over rows that make progress the loop keeps this: the byte count is not negative,
  and when the accept flag is set, a byte has been consumed and the cursor is inside
  the input.
\<close>

lemma for_loop_progress:
  assumes "\<forall>t\<in>set ts. advancing k tabs buf t"
    and "for_loop j tabs ts buf v = Some s"
    and "0 \<le> nbytes_processed v"
    and "in_accept v = 1 \<longrightarrow> 0 < nbytes_processed v \<and> data v \<le> length buf"
  shows "0 \<le> nbytes_processed (scan_vars s)
       \<and> (in_accept (scan_vars s) = 1 \<longrightarrow>
            0 < nbytes_processed (scan_vars s) \<and> data (scan_vars s) \<le> length buf)"
  using assms
proof (induction ts arbitrary: v)
  case Nil
  then show ?case by auto
next
  case (Cons t ts)
  then have adv: "advancing k tabs buf t" and rest: "\<forall>t\<in>set ts. advancing k tabs buf t"
    by simp_all
  show ?case
  proof (cases "current_state t \<noteq> - 1 \<and> cur_state v = current_state t")
    case False
    with Cons.prems Cons.IH [OF rest, of v] show ?thesis
      by (auto split: if_splits)
  next
    case True
    with Cons.prems(2) obtain n d' c' where
      r: "run_transition j tabs t buf (data v) (ctx v) = Some (n, d', c')"
      by (auto split: option.splits)
    show ?thesis
    proof (cases "0 \<le> n")
      case True
      from advancing_result [OF adv r True]
      have n: "0 < n" "data v + nat n \<le> length buf" by simp_all
      from adv have keep: "keeps_cursor t" by (simp add: advancing_def)
      from True \<open>current_state t \<noteq> - 1 \<and> cur_state v = current_state t\<close> r Cons.prems(2)
      have "s = success t buf v n c'" by simp
      with n keep Cons.prems(3) show ?thesis
        by (simp add: success_vars call_transfn_keeps)
    next
      case False
      with \<open>current_state t \<noteq> - 1 \<and> cur_state v = current_state t\<close> r Cons.prems(2)
      have "for_loop j tabs ts buf (failure t v c') = Some s" by simp
      from Cons.IH [OF rest this] Cons.prems(3,4) show ?thesis
        by (simp add: failure_frame)
    qed
  qed
qed

lemma while_loop_progress:
  assumes "\<forall>t\<in>set tbl. advancing k tabs buf t"
  shows "while_loop j tabs tbl buf v = Some (r, v') \<Longrightarrow> 0 \<le> nbytes_processed v \<Longrightarrow>
         (in_accept v = 1 \<longrightarrow> 0 < nbytes_processed v \<and> data v \<le> length buf) \<Longrightarrow>
         0 \<le> nbytes_processed v'
         \<and> (in_accept v' = 1 \<longrightarrow> 0 < nbytes_processed v' \<and> data v' \<le> length buf)"
proof (induction j arbitrary: v)
  case 0
  then show ?case by (auto split: if_splits)
next
  case (Suc j)
  show ?case
  proof (cases "0 \<le> cur_state v")
    case False
    with Suc.prems show ?thesis by auto
  next
    case True
    with Suc.prems(1) obtain s where s: "for_loop j tabs tbl buf v = Some s"
      by (auto split: option.splits)
    note P = for_loop_progress [OF assms s Suc.prems(2,3)]
    show ?thesis
    proof (cases s)
      case (Scan_end v1)
      with True s Suc.prems(1) have "v' = v1\<lparr>cur_state := - 1\<rparr>"
        by (simp add: while_loop_halted)
      with P Scan_end show ?thesis by simp
    next
      case (Scan_break v1)
      with True s Suc.prems(1) have w: "while_loop j tabs tbl buf v1 = Some (r, v')" by simp
      from P Scan_break have "0 \<le> nbytes_processed v1"
        and "in_accept v1 = 1 \<longrightarrow> 0 < nbytes_processed v1 \<and> data v1 \<le> length buf"
        by simp_all
      from Suc.IH [OF w this] show ?thesis .
    next
      case (Scan_return v1)
      with True s Suc.prems(1) have "v' = v1" by simp
      with P Scan_return show ?thesis by simp
    qed
  qed
qed

text \<open>
  A run over rows that make progress, when it returns a length, has consumed at least
  one byte and ends inside the input.
\<close>

lemma run_fsm_progress:
  assumes "\<forall>t\<in>set tbl. advancing k tabs buf t"
    and "run_fsm j tabs tbl buf d c = Some (r, d', c')" and "0 \<le> r"
  shows "0 < r \<and> d + nat r \<le> length buf"
proof -
  from assms(2) obtain v where w: "while_loop j tabs tbl buf (init_vars d c) = Some (r, v)"
    by (auto simp: run_fsm.simps split: option.splits)
  from while_loop_progress [OF assms(1) w]
  have inv: "in_accept v = 1 \<longrightarrow> 0 < nbytes_processed v \<and> data v \<le> length buf"
    by (simp add: init_vars_def)
  from while_loop_return [OF w] assms(3) have acc: "in_accept v = 1" and r: "r = nbytes_processed v"
    by (auto simp: fsm_return_def split: if_splits)
  from assms(1) have "\<forall>t\<in>set tbl. keeps_cursor t"
    by (simp add: advancing_def)
  from while_loop_cursor [OF this w] have "int (data v) - nbytes_processed v = int d"
    by (simp add: init_vars_def)
  with inv acc r show ?thesis by auto
qed

text \<open>
  A pass over rows that make progress returns; if it ends in a transition kept by
  \<^verbatim>\<open>break\<close>, the cursor has moved forward and is still inside the input.
\<close>

lemma for_loop_advancing:
  assumes "\<forall>t\<in>set ts. advancing k tabs buf t"
  shows "\<exists>s. for_loop k tabs ts buf v = Some s \<and>
           (\<forall>v'. s = Scan_break v' \<longrightarrow> data v < data v' \<and> data v' \<le> length buf)"
  using assms
proof (induction ts arbitrary: v)
  case Nil
  then show ?case by simp
next
  case (Cons t ts)
  then have adv: "advancing k tabs buf t" and rest: "\<forall>t\<in>set ts. advancing k tabs buf t"
    by simp_all
  show ?case
  proof (cases "current_state t \<noteq> - 1 \<and> cur_state v = current_state t")
    case False
    with Cons.IH [OF rest, of v] show ?thesis by auto
  next
    case True
    from adv obtain n d' c' where
      r: "run_transition k tabs t buf (data v) (ctx v) = Some (n, d', c')"
      and n: "0 \<le> n \<longrightarrow> 0 < n \<and> data v + nat n \<le> length buf"
      unfolding advancing_def by blast
    show ?thesis
    proof (cases "0 \<le> n")
      case True
      from adv have keep: "keeps_cursor t" by (simp add: advancing_def)
      from True \<open>current_state t \<noteq> - 1 \<and> cur_state v = current_state t\<close> r
      have "for_loop k tabs (t # ts) buf v = Some (success t buf v n c')" by simp
      moreover from True n keep
      have "data v < data (scan_vars (success t buf v n c'))"
        and "data (scan_vars (success t buf v n c')) \<le> length buf"
        by (simp_all add: success_vars call_transfn_keeps)
      ultimately show ?thesis by auto
    next
      case False
      with \<open>current_state t \<noteq> - 1 \<and> cur_state v = current_state t\<close> r
      have "for_loop k tabs (t # ts) buf v = for_loop k tabs ts buf (failure t v c')" by simp
      with Cons.IH [OF rest, of "failure t v c'"] show ?thesis
        by (simp add: failure_frame)
    qed
  qed
qed

lemma while_loop_halts:
  assumes "\<forall>t\<in>set tbl. advancing k tabs buf t"
  shows "length buf - data v < m \<Longrightarrow> \<exists>r. while_loop (k + m) tabs tbl buf v = Some r"
proof (induction m arbitrary: v)
  case 0
  then show ?case by simp
next
  case (Suc m)
  show ?case
  proof (cases "0 \<le> cur_state v")
    case False
    then show ?thesis by (simp add: while_loop_halted)
  next
    case True
    from assms have "\<forall>t\<in>set tbl. advancing (k + m) tabs buf t"
      by (auto intro: advancing_mono)
    from for_loop_advancing [OF this, of v] obtain s where
      s: "for_loop (k + m) tabs tbl buf v = Some s"
      and adv: "\<forall>v'. s = Scan_break v' \<longrightarrow> data v < data v' \<and> data v' \<le> length buf"
      by blast
    show ?thesis
    proof (cases s)
      case (Scan_end v1)
      with True s show ?thesis by (simp add: while_loop_halted)
    next
      case (Scan_break v1)
      with adv Suc.prems have "length buf - data v1 < m" by auto
      from Suc.IH [OF this] True s Scan_break show ?thesis by simp
    next
      case (Scan_return v1)
      with True s show ?thesis by simp
    qed
  qed
qed

text \<open>
  C6, as stated, fails: a predicate row that matches without consuming, and leads
  back to its own state, keeps the driver in its loop. No amount of fuel brings a result.
\<close>

theorem run_fsm_loops_counterexample:
  "\<forall>k. run_fsm k ex_no_tabs ex_loop_table ''abc'' 0 0 = None"
proof
  fix k
  have "while_loop k ex_no_tabs ex_loop_table ''abc'' (init_vars 0 0) = None"
  proof (induction k)
    case 0
    show ?case by (simp add: init_vars_def)
  next
    case (Suc k)
    have "for_loop k ex_no_tabs ex_loop_table ''abc'' (init_vars 0 0)
        = Some (Scan_break (init_vars 0 0))"
      by (simp add: ex_defs)
    with Suc show ?case by (simp add: init_vars_def)
  qed
  then show "run_fsm k ex_no_tabs ex_loop_table ''abc'' 0 0 = None"
    by (simp add: run_fsm.simps)
qed

text \<open>
  A run over rows that make progress returns with fuel for the rows and one unit more
  than the length of the input, wherever the cursor stands.
\<close>

lemma run_fsm_advancing:
  assumes "\<forall>t\<in>set tbl. advancing k tabs buf t"
  shows "\<exists>r d' c'. run_fsm (k + Suc (length buf)) tabs tbl buf d c = Some (r, d', c')
           \<and> (0 \<le> r \<longrightarrow> 0 < r \<and> d + nat r \<le> length buf)"
proof -
  have "length buf - data (init_vars d c) < Suc (length buf)"
    by simp
  from while_loop_halts [OF assms this]
  obtain x where "while_loop (k + Suc (length buf)) tabs tbl buf (init_vars d c) = Some x"
    by blast
  then obtain r d' c' where
    r: "run_fsm (k + Suc (length buf)) tabs tbl buf d c = Some (r, d', c')"
    by (cases x) (simp add: run_fsm.simps)
  from run_fsm_progress [OF assms r] r show ?thesis by blast
qed

text \<open>
  A row of the kind \<open>progress_row\<close> makes progress with fuel \<open>k\<close>, if \<open>k\<close> is enough
  fuel for the runs of the sub-tables that \<open>sub\<close> admits and those runs, when they
  return a length, consume a byte and end inside the input.
\<close>

lemma progress_row_advancing:
  assumes "progress_row sub buf t"
    and sub: "\<forall>a. sub a \<longrightarrow> (\<forall>d c. \<exists>r d' c'. run_fsm k tabs (tabs a) buf d c = Some (r, d', c')
           \<and> (0 \<le> r \<longrightarrow> 0 < r \<and> d + nat r \<le> length buf))"
  shows "advancing k tabs buf t"
  unfolding advancing_def
proof (intro conjI allI)
  from assms(1) show "keeps_cursor t" by (simp add: progress_row_def)
next
  fix d c
  show "\<exists>n d' c'. run_transition k tabs t buf d c = Some (n, d', c') \<and>
         (0 \<le> n \<longrightarrow> 0 < n \<and> d + nat n \<le> length buf)"
  proof (cases "match_type t")
    case EXACT_STR
    with assms(1) show ?thesis
      by (auto simp: run_transition.simps progress_row_def dest: memcmp_eq_inside
          split: option.splits)
  next
    case SINGLE_CHR
    then show ?thesis
      by (auto simp: run_transition.simps dest: chr_match_inside split: option.splits)
  next
    case FSM
    show ?thesis
    proof (cases "transition_table t")
      case None
      with FSM show ?thesis by (simp add: run_transition.simps)
    next
      case (Some a)
      with FSM assms(1) have "sub a" by (simp add: progress_row_def)
      with sub obtain r d' c' where "run_fsm k tabs (tabs a) buf d c = Some (r, d', c')"
        and "0 \<le> r \<longrightarrow> 0 < r \<and> d + nat r \<le> length buf"
        by blast
      with FSM Some show ?thesis by (simp add: run_transition.simps)
    qed
  next
    case FUNC
    show ?thesis
    proof (cases "action t")
      case None
      with FUNC show ?thesis by (simp add: run_transition.simps)
    next
      case (Some f)
      obtain n d' c' where f: "f buf d c (local_context t) = (n, d', c')"
        by (cases "f buf d c (local_context t)")
      from FUNC Some assms(1)
      have "fst (f buf d c (local_context t)) < 0 \<or>
          (0 < fst (f buf d c (local_context t)) \<and>
           d + nat (fst (f buf d c (local_context t))) \<le> length buf)"
        by (simp add: progress_row_def)
      with f have "n < 0 \<or> (0 < n \<and> d + nat n \<le> length buf)" by simp
      with FUNC Some f show ?thesis by (auto simp: run_transition.simps)
    qed
  next
    case INVALID_MATCH
    then show ?thesis by (simp add: run_transition.simps)
  qed
qed

text \<open>
  The rows of a table that nests \<open>h\<close> deep make progress with fuel for \<open>h\<close> nested
  runs over the whole input.
\<close>

lemma progress_table_advancing:
  "progress_table h tabs buf tbl \<Longrightarrow>
     \<forall>t\<in>set tbl. advancing (h * Suc (length buf)) tabs buf t"
proof (induction h arbitrary: tbl)
  case 0
  then show ?case
    by (auto simp: list_all_iff intro: progress_row_advancing)
next
  case (Suc h)
  have sub: "\<forall>a. progress_table h tabs buf (tabs a) \<longrightarrow>
      (\<forall>d c. \<exists>r d' c'. run_fsm (Suc h * Suc (length buf)) tabs (tabs a) buf d c = Some (r, d', c')
           \<and> (0 \<le> r \<longrightarrow> 0 < r \<and> d + nat r \<le> length buf))"
  proof (intro allI impI)
    fix a d c
    assume "progress_table h tabs buf (tabs a)"
    have "Suc h * Suc (length buf) = h * Suc (length buf) + Suc (length buf)"
      by simp
    with run_fsm_advancing [OF Suc.IH [OF \<open>progress_table h tabs buf (tabs a)\<close>], of d c]
    show "\<exists>r d' c'. run_fsm (Suc h * Suc (length buf)) tabs (tabs a) buf d c = Some (r, d', c')
           \<and> (0 \<le> r \<longrightarrow> 0 < r \<and> d + nat r \<le> length buf)"
      by (simp only:)
  qed
  show ?case
  proof
    fix t assume "t \<in> set tbl"
    with Suc.prems
    have "progress_row (\<lambda>a. progress_table h tabs buf (tabs a)) buf t"
      by (simp add: list_all_iff)
    from progress_row_advancing [OF this sub]
    show "advancing (Suc h * Suc (length buf)) tabs buf t" .
  qed
qed

text \<open>
  C6, amended. If the sub-machine rows of a table nest at most \<open>h\<close> deep, no exact
  string in it or in the tables it refers to is empty, every match of a predicate
  consumes at least one byte and ends inside the input, and the callbacks leave the
  cursor alone, then the run halts on every input and from every cursor: fuel for
  \<open>h\<close> nested runs over the whole input and for one pass for each byte of input left
  and one more is enough.
\<close>

theorem run_fsm_halts:
  assumes "progress_table h tabs buf tbl"
  shows "\<exists>r. run_fsm (h * Suc (length buf) + Suc (length buf - d)) tabs tbl buf d c = Some r"
proof -
  from progress_table_advancing [OF assms]
  have "\<forall>t\<in>set tbl. advancing (h * Suc (length buf)) tabs buf t" .
  moreover have "length buf - data (init_vars d c) < Suc (length buf - d)"
    by (simp add: init_vars_def)
  ultimately obtain r where "while_loop (h * Suc (length buf) + Suc (length buf - d)) tabs tbl buf
      (init_vars d c) = Some r"
    using while_loop_halts by blast
  then show ?thesis
    by (cases r) (simp add: run_fsm.simps)
qed

text \<open>
  A table that runs a sub-machine for \<open>''abz''\<close> again and again, on \<open>''abzabzq''\<close>:
  the nesting is 1 deep, and the run returns 6 after two runs of the sub-machine that
  match and one that fails.
\<close>

theorem run_fsm_halts_witness:
  "progress_table (Suc 0) ex_tabs ''abzabzq'' ex_repeat_table
   \<and> (\<exists>r. run_fsm (Suc 0 * Suc (length ''abzabzq'') + Suc (length ''abzabzq'' - 0)) ex_tabs
         ex_repeat_table ''abzabzq'' 0 0 = Some r)
   \<and> run_fsm 16 ex_tabs ex_repeat_table ''abzabzq'' 0 0 = Some (6, 6, 2)"
proof -
  have h: "progress_table (Suc 0) ex_tabs ''abzabzq'' ex_repeat_table"
    by (simp add: ex_defs)
  note e = run_fsm_halts [OF h, of 0 0]
  have "run_fsm 16 ex_tabs ex_repeat_table ''abzabzq'' 0 0 = Some (6, 6, 2)"
    by (simp add: eval_nat_numeral ex_defs)
  with h e show ?thesis
    by (intro conjI)
qed

text \<open>
  The conditions on exact strings and on the nesting are needed as the one on
  predicates is: a row with an empty pattern that leads back to its own state, and a
  table whose row runs the table itself as a sub-machine, never return either.
\<close>

lemma empty_pattern_loops:
  "run_fsm k ex_no_tabs [ex_row 0 EXACT_STR (Some '''') 0 (- 1) NORMAL, ex_sentinel] ''abc'' 0 0
   = None"
proof -
  have "while_loop k ex_no_tabs [ex_row 0 EXACT_STR (Some '''') 0 (- 1) NORMAL, ex_sentinel]
      ''abc'' (init_vars 0 0) = None"
  proof (induction k)
    case 0
    show ?case by (simp add: init_vars_def)
  next
    case (Suc k)
    have "for_loop k ex_no_tabs [ex_row 0 EXACT_STR (Some '''') 0 (- 1) NORMAL, ex_sentinel]
        ''abc'' (init_vars 0 0) = Some (Scan_break (init_vars 0 0))"
      by (simp add: ex_defs)
    with Suc show ?case by (simp add: init_vars_def)
  qed
  then show ?thesis
    by (simp add: run_fsm.simps)
qed

lemma self_nested_table_loops:
  "run_fsm k ex_tabs ex_self_table ''abc'' 0 0 = None"
proof (induction k)
  case 0
  show ?case by (simp add: run_fsm.simps init_vars_def)
next
  case (Suc k)
  have "ex_tabs 2 = ex_self_table"
    by (simp add: ex_tabs_def)
  with Suc
  have "run_transition k ex_tabs ((ex_row 0 FSM None 1 (- 1) ACCEPT)\<lparr>transition_table := Some 2\<rparr>)
      ''abc'' 0 0 = None"
    by (simp add: run_transition.simps ex_row_def)
  then have "for_loop k ex_tabs ex_self_table ''abc'' (init_vars 0 0) = None"
    by (simp add: ex_self_table_def init_vars_def ex_row_def)
  then show ?case
    by (simp add: run_fsm.simps init_vars_def)
qed

subsection \<open>No roll-back of the context\<close>




end
